theory Spec2Isabelle
  imports Complex_Main
begin

section \<open>Floating-point samples\<close>

text \<open>
  The arrays of the notebook hold IEEE floating-point samples. A sample is modelled as an
  exact real number or one of the three special values of IEEE arithmetic, so that
  not-a-number gaps, division by zero and their propagation are part of the model.
  The arithmetic of finite samples is exact: rounding, the overflow of a sum, product or
  quotient to an infinity and the sign of zero are not modelled. The exponential, which
  leaves the range of float64 at ordinary temperatures, overflows and underflows in the
  model as it does in the code.
\<close>

datatype fl = Fin real | PInf | NInf | NaN

instantiation fl :: "{plus, minus, uminus, times, inverse}"
begin

fun plus_fl :: "fl \<Rightarrow> fl \<Rightarrow> fl" where
  "NaN + _ = NaN"
| "_ + NaN = NaN"
| "PInf + NInf = NaN"
| "NInf + PInf = NaN"
| "PInf + _ = PInf"
| "_ + PInf = PInf"
| "NInf + _ = NInf"
| "_ + NInf = NInf"
| "Fin a + Fin b = Fin (a + b)"

fun uminus_fl :: "fl \<Rightarrow> fl" where
  "- NaN = NaN"
| "- PInf = NInf"
| "- NInf = PInf"
| "- Fin a = Fin (- a)"

definition minus_fl :: "fl \<Rightarrow> fl \<Rightarrow> fl" where
  "a - b = a + (- b :: fl)"

fun times_fl :: "fl \<Rightarrow> fl \<Rightarrow> fl" where
  "NaN * _ = NaN"
| "_ * NaN = NaN"
| "PInf * PInf = PInf"
| "PInf * NInf = NInf"
| "NInf * PInf = NInf"
| "NInf * NInf = PInf"
| "PInf * Fin b = (if b = 0 then NaN else if 0 < b then PInf else NInf)"
| "NInf * Fin b = (if b = 0 then NaN else if 0 < b then NInf else PInf)"
| "Fin a * PInf = (if a = 0 then NaN else if 0 < a then PInf else NInf)"
| "Fin a * NInf = (if a = 0 then NaN else if 0 < a then NInf else PInf)"
| "Fin a * Fin b = Fin (a * b)"

fun divide_fl :: "fl \<Rightarrow> fl \<Rightarrow> fl" where
  "divide NaN _ = NaN"
| "divide _ NaN = NaN"
| "divide PInf PInf = NaN"
| "divide PInf NInf = NaN"
| "divide NInf PInf = NaN"
| "divide NInf NInf = NaN"
| "divide PInf (Fin b) = (if 0 \<le> b then PInf else NInf)"
| "divide NInf (Fin b) = (if 0 \<le> b then NInf else PInf)"
| "divide (Fin a) PInf = Fin 0"
| "divide (Fin a) NInf = Fin 0"
| "divide (Fin a) (Fin b) =
     (if b = 0 then (if a = 0 then NaN else if 0 < a then PInf else NInf)
      else Fin (a / b))"

definition inverse_fl :: "fl \<Rightarrow> fl" where
  "inverse a = divide (Fin 1) (a :: fl)"

instance ..

end

text \<open>The largest float64 and the smallest positive float64.\<close>

definition max_float :: real where
  "max_float = (2 - 1 / 2 ^ 52) * 2 ^ 1023"

definition min_subnormal :: real where
  "min_subnormal = 1 / 2 ^ 1074"

text \<open>
  \<open>np.exp\<close>: infinity when the exponential is above the largest float64 (an argument
  above about 709.78), 0 when it is at most half the smallest positive float64 (an
  argument below about -745.13), the exponential otherwise.
\<close>

fun np_exp :: "fl \<Rightarrow> fl" where
  "np_exp NaN = NaN"
| "np_exp PInf = PInf"
| "np_exp NInf = Fin 0"
| "np_exp (Fin a) =
     (if max_float < exp a then PInf
      else if exp a \<le> min_subnormal / 2 then Fin 0
      else Fin (exp a))"

text \<open>\<open>x ** 2\<close>\<close>

fun pow2 :: "fl \<Rightarrow> fl" where
  "pow2 NaN = NaN"
| "pow2 PInf = PInf"
| "pow2 NInf = PInf"
| "pow2 (Fin a) = Fin (a\<^sup>2)"

text \<open>\<open>x.clip(min=0)\<close>: the larger of the sample and 0; not-a-number stays not-a-number.\<close>

fun clip_min0 :: "fl \<Rightarrow> fl" where
  "clip_min0 NaN = NaN"
| "clip_min0 PInf = PInf"
| "clip_min0 NInf = Fin 0"
| "clip_min0 (Fin a) = Fin (max a 0)"

text \<open>The comparison \<open>a <= b\<close> of two samples; every comparison with not-a-number is false.\<close>

fun fle :: "fl \<Rightarrow> fl \<Rightarrow> bool" where
  "fle NaN _ = False"
| "fle _ NaN = False"
| "fle NInf _ = True"
| "fle _ PInf = True"
| "fle PInf _ = False"
| "fle _ NInf = False"
| "fle (Fin a) (Fin b) = (a \<le> b)"

fun is_finite :: "fl \<Rightarrow> bool" where
  "is_finite (Fin _) = True"
| "is_finite _ = False"

section \<open>Arrays and the dataset\<close>

text \<open>
  A data variable is an array indexed by (time, y, x). It is modelled as the list of its
  timesteps; one timestep is a grid, a function from the cell (y, x) to its sample.
  The dataset maps each variable name to its array.
\<close>

type_synonym cell = "nat \<times> nat"
type_synonym grid = "cell \<Rightarrow> fl"
type_synonym field = "grid list"
type_synonym dataset = "string \<rightharpoonup> field"

datatype py_error =
  KeyError | IndexError | RequestError | ValueError | UnknownTimeZoneError | TimeZoneError

definition lookup :: "dataset \<Rightarrow> string \<Rightarrow> py_error + field" where
  "lookup ds var = (case ds var of None \<Rightarrow> Inl KeyError | Some data \<Rightarrow> Inr data)"

definition bind_err :: "'e + 'a \<Rightarrow> ('a \<Rightarrow> 'e + 'b) \<Rightarrow> 'e + 'b" where
  "bind_err m f = (case m of Inl e \<Rightarrow> Inl e | Inr x \<Rightarrow> f x)"

text \<open>Element-wise arithmetic of two arrays of the same shape, and of an array and a scalar.\<close>

definition arr_sub :: "field \<Rightarrow> field \<Rightarrow> field" where
  "arr_sub a b = map2 (\<lambda>g h c. g c - h c) a b"

definition arr_add :: "field \<Rightarrow> field \<Rightarrow> field" where
  "arr_add a b = map2 (\<lambda>g h c. g c + h c) a b"

definition arr_scale :: "field \<Rightarrow> fl \<Rightarrow> field" where
  "arr_scale a k = map (\<lambda>g c. g c * k) a"

definition arr_shift :: "field \<Rightarrow> fl \<Rightarrow> field" where
  "arr_shift a k = map (\<lambda>g c. g c - k) a"

definition arr_clip_min0 :: "field \<Rightarrow> field" where
  "arr_clip_min0 a = map (\<lambda>g c. clip_min0 (g c)) a"

text \<open>The series of one cell over the time axis.\<close>

definition series :: "field \<Rightarrow> cell \<Rightarrow> fl list" where
  "series a c = map (\<lambda>g. g c) a"

section \<open>De-accumulation\<close>

text \<open>
  \<^verbatim>\<open>data = ds[var].data ; ds[var].data[1:] = data[1:] - data[:-1]\<close>:
  the right-hand side is computed as a new array from the old values, then stored into
  the timesteps from index 1 on. Timestep 0 is not written.
\<close>

definition deaccumulate :: "field \<Rightarrow> field" where
  "deaccumulate data = take 1 data @ arr_sub (drop 1 data) (butlast data)"

definition accumulated_vars :: "string list" where
  "accumulated_vars = [''grad'', ''nswrf'', ''nlwrf'', ''precip'']"

text \<open>The loop over the accumulated variables; \<open>ds[var]\<close> raises KeyError for a missing one.\<close>

fun deaccumulate_vars :: "string list \<Rightarrow> dataset \<Rightarrow> py_error + dataset" where
  "deaccumulate_vars [] ds = Inr ds"
| "deaccumulate_vars (var # vars) ds =
     (case ds var of
        None \<Rightarrow> Inl KeyError
      | Some data \<Rightarrow> deaccumulate_vars vars (ds(var \<mapsto> deaccumulate data)))"


text \<open>
  Re-accumulation, as the specification words it: the cumulative sum of a series from
  timestep 0 (\<open>out[0] = v[0]\<close>, \<open>out[i] = out[i-1] + v[i]\<close>). It is not part of the
  notebook; the round-trip law is stated against it.
\<close>

fun cumsum_from :: "fl \<Rightarrow> fl list \<Rightarrow> fl list" where
  "cumsum_from acc [] = []"
| "cumsum_from acc (x # xs) = (acc + x) # cumsum_from (acc + x) xs"

fun cumsum :: "fl list \<Rightarrow> fl list" where
  "cumsum [] = []"
| "cumsum (x # xs) = x # cumsum_from x xs"

section \<open>Unit conversion\<close>

text \<open>
  The cell "Unit conversion and de-accumulating the accumulated parameters": pressure
  from Pa to kPa, temperature from Kelvin to Celsius, the de-accumulation loop, net
  radiation as the sum of the two net fluxes, and joule to megajoule for \<open>grad\<close> and \<open>rn\<close>.
\<close>

definition convert_units :: "dataset \<Rightarrow> py_error + dataset" where
  "convert_units ds =
     bind_err (lookup ds ''pres'') (\<lambda>pres.
     let ds = ds(''pres'' \<mapsto> arr_scale pres (Fin 0.001)) in
     bind_err (lookup ds ''temp'') (\<lambda>temp.
     let ds = ds(''temp'' \<mapsto> arr_shift temp (Fin 273.15)) in
     bind_err (deaccumulate_vars accumulated_vars ds) (\<lambda>ds.
     bind_err (lookup ds ''nswrf'') (\<lambda>nswrf.
     bind_err (lookup ds ''nlwrf'') (\<lambda>nlwrf.
     let ds = ds(''rn'' \<mapsto> arr_add nswrf nlwrf) in
     bind_err (lookup ds ''grad'') (\<lambda>grad.
     let ds = ds(''grad'' \<mapsto> arr_scale grad (Fin 0.000001)) in
     bind_err (lookup ds ''rn'') (\<lambda>rn.
     Inr (ds(''rn'' \<mapsto> arr_scale rn (Fin 0.000001))))))))))"

text \<open>
  The first lines of the cell "Saving as dfs2 files": megajoule to kilojoule for \<open>grad\<close>
  and \<open>rn\<close>, joule to kilojoule for the two net fluxes, negative precipitation clipped.
\<close>

definition export_units :: "dataset \<Rightarrow> py_error + dataset" where
  "export_units ds =
     bind_err (lookup ds ''grad'') (\<lambda>grad.
     let ds = ds(''grad'' \<mapsto> arr_scale grad (Fin 1000)) in
     bind_err (lookup ds ''rn'') (\<lambda>rn.
     let ds = ds(''rn'' \<mapsto> arr_scale rn (Fin 1000)) in
     bind_err (lookup ds ''nswrf'') (\<lambda>nswrf.
     let ds = ds(''nswrf'' \<mapsto> arr_scale nswrf (Fin 0.001)) in
     bind_err (lookup ds ''nlwrf'') (\<lambda>nlwrf.
     let ds = ds(''nlwrf'' \<mapsto> arr_scale nlwrf (Fin 0.001)) in
     bind_err (lookup ds ''precip'') (\<lambda>precip.
     Inr (ds(''precip'' \<mapsto> arr_clip_min0 precip)))))))"

section \<open>Daylight factors\<close>

text \<open>
  A \<open>datetime.time\<close> has an hour, a minute and a second; a timestamp of the time axis has
  a date (year, month, day) as well.
\<close>

type_synonym date = "nat \<times> nat \<times> nat"

record clock_time =
  hour :: nat
  minute :: nat
  second :: nat

record timestamp = clock_time +
  date :: date

text \<open>
  What the notebook asks of the outside world, taken as parameters: the sunrise-sunset
  web service (latitude, longitude and date to the two time strings of its answer),
  \<open>datetime.strptime\<close> with the format \<open>%I:%M:%S %p\<close>, and \<open>pytz.timezone\<close>, which gives
  for a known zone name the timezone object, here its \<open>dst\<close> method called with
  \<open>is_dst=None\<close> (a time difference in seconds). Each is \<open>None\<close>
  where the real one raises.
\<close>

record env =
  requests_get :: "real \<Rightarrow> real \<Rightarrow> date \<Rightarrow> (string \<times> string) option"
  strptime :: "string \<Rightarrow> clock_time option"
  pytz_timezone :: "string \<Rightarrow> (timestamp \<Rightarrow> int option) option"

text \<open>
  The decimal hours are Python floats, and comparing them decides which factor the soil
  heat flux gets, so they are the float64 values that the code computes. \<open>f64\<close> rounds a
  real number to the nearest float64, ties to even (53 significant bits; the values
  here lie between 0 and 32, far from the subnormal range and from overflow). Every
  float operation of the code is the exact operation followed by this rounding.
\<close>

definition rne :: "real \<Rightarrow> int" where
  "rne y = (let n = \<lfloor>y\<rfloor>; d = y - of_int n
            in if d < 1 / 2 then n else if 1 / 2 < d then n + 1
               else if even n then n else n + 1)"

definition f64 :: "real \<Rightarrow> real" where
  "f64 x = (if x = 0 then 0
            else let e = \<lfloor>log 2 \<bar>x\<bar>\<rfloor>
                 in of_int (rne (x * 2 powr (52 - of_int e))) * 2 powr (of_int e - 52))"

text \<open>The float \<open>t.hour + t.minute / 60\<close> of a time or timestamp \<open>t\<close>.\<close>

definition decimal_hour :: "nat \<Rightarrow> nat \<Rightarrow> real" where
  "decimal_hour h m = f64 (real h + f64 (real m / 60))"

text \<open>
  The loop of \<open>get_daylight_factors\<close> over the timestamps, with the timezone object that
  \<open>pytz.timezone\<close> returned before the loop.
\<close>

fun get_daylight_factors_loop ::
  "env \<Rightarrow> (timestamp \<Rightarrow> int option) \<Rightarrow> real \<Rightarrow> real \<Rightarrow> timestamp list
     \<Rightarrow> py_error + (real \<times> real) list" where
  "get_daylight_factors_loop env copenhagen_tz lat lng [] = Inr []"
| "get_daylight_factors_loop env copenhagen_tz lat lng (timestep # rest) =
     (case requests_get env lat lng (date timestep) of
        None \<Rightarrow> Inl RequestError
      | Some (r_sunrise, r_sunset) \<Rightarrow>
          (case copenhagen_tz timestep of
             None \<Rightarrow> Inl TimeZoneError
           | Some dst \<Rightarrow>
               (case strptime env r_sunrise of
                  None \<Rightarrow> Inl ValueError
                | Some sunrise \<Rightarrow>
                    (case strptime env r_sunset of
                       None \<Rightarrow> Inl ValueError
                     | Some sunset \<Rightarrow>
                         (let daylight = (if dst \<noteq> 0 then 2 else 1);
                              sunrise_hour = f64 (decimal_hour (hour sunrise) (minute sunrise) + daylight);
                              sunset_hour = f64 (decimal_hour (hour sunset) (minute sunset) + daylight)
                          in bind_err (get_daylight_factors_loop env copenhagen_tz lat lng rest)
                               (\<lambda>daylight_factors. Inr ((sunrise_hour, sunset_hour) # daylight_factors)))))))"

definition get_daylight_factors ::
  "env \<Rightarrow> timestamp list \<Rightarrow> string \<Rightarrow> real \<Rightarrow> real \<Rightarrow> py_error + (real \<times> real) list" where
  "get_daylight_factors env timeseries timezone lat lng =
     (case pytz_timezone env timezone of
        None \<Rightarrow> Inl UnknownTimeZoneError
      | Some copenhagen_tz \<Rightarrow> get_daylight_factors_loop env copenhagen_tz lat lng timeseries)"

section \<open>Potential evapotranspiration\<close>

text \<open>
  The two formulas are written on arrays in the notebook; every operator in them acts
  element by element. The model gives the formula for one cell of one timestep and maps
  it over the arrays.
\<close>

definition makkink_cell :: "fl \<Rightarrow> fl \<Rightarrow> fl \<Rightarrow> fl" where
  "makkink_cell temp rs pres =
     (let CP = Fin 0.001013;
          lam = Fin 2.501 - Fin 0.002361 * temp;
          gam = (CP * pres) / (Fin 0.622 * lam);
          es = Fin 0.6108 * np_exp (Fin 17.27 * temp / (temp + Fin 237.3));
          s = (Fin 4098 * es) / pow2 (temp + Fin 237.3);
          makkink_pet = (Fin 0.65 * s * rs) / (lam * (s + gam))
      in clip_min0 makkink_pet)"

definition calculate_makkink :: "field \<Rightarrow> field \<Rightarrow> field \<Rightarrow> field" where
  "calculate_makkink temp rs pres =
     map (\<lambda>(t, r, p). \<lambda>c. makkink_cell (t c) (r c) (p c)) (zip temp (zip rs pres))"

definition penman_monteith_cell :: "fl \<Rightarrow> fl \<Rightarrow> fl \<Rightarrow> fl \<Rightarrow> fl \<Rightarrow> fl \<Rightarrow> fl" where
  "penman_monteith_cell temp rh ws rn G pres =
     (let CP = Fin 0.001013;
          lam = Fin 2.501 - Fin 0.002361 * temp;
          gam = CP * pres / (Fin 0.622 * lam);
          es = Fin 0.6108 * np_exp (Fin 17.27 * temp / (temp + Fin 237.3));
          ea = rh / Fin 100 * es;
          s = (Fin 4098 * es) / pow2 (temp + Fin 237.3);
          pet_factor = Fin 37;
          u2 = Fin (4.87 / ln (67.8 * 10 - 5.42)) * ws;
          pm_pet = (Fin 0.408 * s * (rn - G) + gam * pet_factor / (temp + Fin 273) * u2 * (es - ea))
                     / (s + gam * (Fin 1 + Fin 0.34 * u2))
      in clip_min0 pm_pet)"

text \<open>
  The arrays handed to \<open>calculate_penman_monteith\<close> are objects that the caller still
  holds, and the function writes into an array. The store is the list of the arrays
  allocated so far; an address is an index into it, and the addresses handed to the
  function are those of allocated arrays. \<open>copy.deepcopy\<close> allocates a new array with the
  same samples.
\<close>

type_synonym addr = nat
type_synonym store = "field list"

definition deepcopy :: "store \<Rightarrow> addr \<Rightarrow> addr \<times> store" where
  "deepcopy h a = (length h, h @ [h ! a])"

text \<open>
  The loop that adjusts the soil heat flux by daylight hours. \<open>timeseries[i]\<close>,
  \<open>rn[i, :, :]\<close> and \<open>G[i, :, :]\<close> raise IndexError out of range.
\<close>

fun adjust_G ::
  "store \<Rightarrow> addr \<Rightarrow> addr \<Rightarrow> timestamp list \<Rightarrow> (nat \<times> real \<times> real) list \<Rightarrow> py_error option \<times> store" where
  "adjust_G h G rn timeseries [] = (None, h)"
| "adjust_G h G rn timeseries ((i, sunrise, sunset) # rest) =
     (if i < length timeseries then
        (let hour = decimal_hour (hour (timeseries ! i)) (minute (timeseries ! i)) in
         if i < length (h ! rn) \<and> i < length (h ! G) then
           (if sunrise \<le> hour \<and> hour < sunset
            then adjust_G (h[G := (h ! G)[i := (\<lambda>c. Fin 0.1 * (h ! rn ! i) c)]]) G rn timeseries rest
            else adjust_G (h[G := (h ! G)[i := (\<lambda>c. Fin 0.5 * (h ! rn ! i) c)]]) G rn timeseries rest)
         else (Some IndexError, h))
      else (Some IndexError, h))"

text \<open>
  \<open>get_daylight_factors\<close> is called with its default arguments: the timezone
  Europe/Copenhagen, latitude 55.686 and longitude 12.570.
\<close>

definition calculate_penman_monteith ::
  "env \<Rightarrow> store \<Rightarrow> addr \<Rightarrow> addr \<Rightarrow> addr \<Rightarrow> addr \<Rightarrow> addr \<Rightarrow> timestamp list \<Rightarrow> (py_error + field) \<times> store" where
  "calculate_penman_monteith env h temp rh ws rn pres timeseries =
     (let (G, h) = deepcopy h rn in
      case get_daylight_factors env timeseries ''Europe/Copenhagen'' 55.686 12.570 of
        Inl e \<Rightarrow> (Inl e, h)
      | Inr daylight_factors \<Rightarrow>
          (case adjust_G h G rn timeseries (enumerate 0 daylight_factors) of
             (Some e, h) \<Rightarrow> (Inl e, h)
           | (None, h) \<Rightarrow>
               (Inr (map (\<lambda>(t, r, w, n, g, p). \<lambda>c.
                            penman_monteith_cell (t c) (r c) (w c) (n c) (g c) (p c))
                       (zip (h ! temp) (zip (h ! rh) (zip (h ! ws)
                         (zip (h ! rn) (zip (h ! G) (h ! pres))))))), h)))"

text \<open>
  The cell that calls the two functions on the dataset's arrays and adds the two derived
  variables; \<open>timeseries\<close> is the time axis of the dataset (\<open>ds['time'].values\<close>). The five
  arrays handed to \<open>calculate_penman_monteith\<close> are placed in a store for the call, and
  the dataset holds afterwards what the store holds.
\<close>

definition pet_stage :: "env \<Rightarrow> timestamp list \<Rightarrow> dataset \<Rightarrow> py_error + dataset" where
  "pet_stage env timeseries ds =
     bind_err (lookup ds ''temp'') (\<lambda>temp.
     bind_err (lookup ds ''grad'') (\<lambda>grad.
     bind_err (lookup ds ''pres'') (\<lambda>pres.
     let ds = ds(''makkink'' \<mapsto> calculate_makkink temp grad pres) in
     bind_err (lookup ds ''temp'') (\<lambda>temp.
     bind_err (lookup ds ''rh'') (\<lambda>rh.
     bind_err (lookup ds ''ws'') (\<lambda>ws.
     bind_err (lookup ds ''rn'') (\<lambda>rn.
     bind_err (lookup ds ''pres'') (\<lambda>pres.
     case calculate_penman_monteith env [temp, rh, ws, rn, pres] 0 1 2 3 4 timeseries of
       (Inl e, h) \<Rightarrow> Inl e
     | (Inr pm, h) \<Rightarrow>
         Inr (ds(''temp'' \<mapsto> h ! 0, ''rh'' \<mapsto> h ! 1, ''ws'' \<mapsto> h ! 2, ''rn'' \<mapsto> h ! 3,
                 ''pres'' \<mapsto> h ! 4, ''penman_monteith'' \<mapsto> pm))))))))))"

definition pipeline :: "env \<Rightarrow> timestamp list \<Rightarrow> dataset \<Rightarrow> py_error + dataset" where
  "pipeline env timeseries ds =
     bind_err (convert_units ds) (\<lambda>ds.
     bind_err (pet_stage env timeseries ds) export_units)"

section \<open>The formulas as the specification gives them\<close>

text \<open>
  The two equations over the real numbers, with the names of the specification. They
  are compared below with the code's formulas where the code computes finite numbers.
\<close>

definition lambda_spec :: "real \<Rightarrow> real" where
  "lambda_spec T = 2.501 - 0.002361 * T"

definition gamma_spec :: "real \<Rightarrow> real \<Rightarrow> real" where
  "gamma_spec T P = (0.001013 * P) / (0.622 * lambda_spec T)"

definition es_spec :: "real \<Rightarrow> real" where
  "es_spec T = 0.6108 * exp (17.27 * T / (T + 237.3))"

definition s_spec :: "real \<Rightarrow> real" where
  "s_spec T = 4098 * es_spec T / (T + 237.3)\<^sup>2"

definition makkink_spec :: "real \<Rightarrow> real \<Rightarrow> real \<Rightarrow> real" where
  "makkink_spec T rs P =
     max 0 ((0.65 * s_spec T * rs) / (lambda_spec T * (s_spec T + gamma_spec T P)))"

definition ea_spec :: "real \<Rightarrow> real \<Rightarrow> real" where
  "ea_spec T RH = (RH / 100) * es_spec T"

definition u2_spec :: "real \<Rightarrow> real" where
  "u2_spec ws = (4.87 / ln (67.8 * 10 - 5.42)) * ws"

definition penman_monteith_spec :: "real \<Rightarrow> real \<Rightarrow> real \<Rightarrow> real \<Rightarrow> real \<Rightarrow> real \<Rightarrow> real" where
  "penman_monteith_spec T RH ws rn G P =
     max 0 ((0.408 * s_spec T * (rn - G)
               + gamma_spec T P * (37 / (T + 273)) * u2_spec ws * (es_spec T - ea_spec T RH))
            / (s_spec T + gamma_spec T P * (1 + 0.34 * u2_spec ws)))"

section \<open>Example inputs\<close>

text \<open>A grid with the same sample in every cell.\<close>

definition uniform :: "fl \<Rightarrow> grid" where
  "uniform v = (\<lambda>c. v)"

text \<open>A small dataset of two timesteps with the eight base variables in provider units.\<close>

definition example_ds :: dataset where
  "example_ds = [''temp'' \<mapsto> [uniform (Fin 288.15), uniform (Fin 289.15)],
                 ''pres'' \<mapsto> [uniform (Fin 101325), uniform (Fin 101300)],
                 ''rh'' \<mapsto> [uniform (Fin 70), uniform (Fin 75)],
                 ''ws'' \<mapsto> [uniform (Fin 3), uniform (Fin 4)],
                 ''grad'' \<mapsto> [uniform (Fin 1000000), uniform (Fin 3000000)],
                 ''nswrf'' \<mapsto> [uniform (Fin 800000), uniform (Fin 2000000)],
                 ''nlwrf'' \<mapsto> [uniform (Fin (-100000)), uniform (Fin (-300000))],
                 ''precip'' \<mapsto> [uniform (Fin 0), uniform (Fin 2)]]"

text \<open>A cumulative series with a not-a-number gap at timestep 1.\<close>

definition gap_field :: field where
  "gap_field = [uniform (Fin 1), uniform NaN, uniform (Fin 3)]"

text \<open>
  A stand-in for the outside world in Copenhagen. The web service answers with sunrise
  2:35:00 AM and sunset 7:57:00 PM for 20 June 2024, with 7:30:00 AM and 3:50:00 PM for
  15 January 2024, and with 2:25:38 AM and 7:55:10 PM for every other date; the strings
  parse to these times; the zone Europe/Copenhagen is known, and daylight-saving time
  (one hour) is in effect from April to September.
\<close>

definition example_env :: env where
  "example_env =
     \<lparr>requests_get = (\<lambda>lat lng d.
         if d = (2024, 6, 20) then Some (''2:35:00 AM'', ''7:57:00 PM'')
         else if d = (2024, 1, 15) then Some (''7:30:00 AM'', ''3:50:00 PM'')
         else Some (''2:25:38 AM'', ''7:55:10 PM'')),
      strptime = (\<lambda>s.
         if s = ''2:25:38 AM'' then Some \<lparr>hour = 2, minute = 25, second = 38\<rparr>
         else if s = ''7:55:10 PM'' then Some \<lparr>hour = 19, minute = 55, second = 10\<rparr>
         else if s = ''2:35:00 AM'' then Some \<lparr>hour = 2, minute = 35, second = 0\<rparr>
         else if s = ''7:57:00 PM'' then Some \<lparr>hour = 19, minute = 57, second = 0\<rparr>
         else if s = ''7:30:00 AM'' then Some \<lparr>hour = 7, minute = 30, second = 0\<rparr>
         else if s = ''3:50:00 PM'' then Some \<lparr>hour = 15, minute = 50, second = 0\<rparr>
         else None),
      pytz_timezone = (\<lambda>tz.
         if tz = ''Europe/Copenhagen''
         then Some (\<lambda>t. case date t of (y, m, d) \<Rightarrow>
                            if 4 \<le> m \<and> m \<le> 9 then Some 3600 else Some 0)
         else None)\<rparr>"

text \<open>Two timestamps of 15 June 2024: noon and 23:00.\<close>

definition example_times :: "timestamp list" where
  "example_times =
     [\<lparr>hour = 12, minute = 0, second = 0, date = (2024, 6, 15)\<rparr>,
      \<lparr>hour = 23, minute = 0, second = 0, date = (2024, 6, 15)\<rparr>]"


text \<open>
  The arrays of the end-to-end scenario, two timesteps each, at the addresses 0 to 4:
  temperature 15, relative humidity 70, wind speed 3, net radiation 10, pressure 101.3.
\<close>

definition scenario_store :: store where
  "scenario_store =
     [[uniform (Fin 15), uniform (Fin 15)],
      [uniform (Fin 70), uniform (Fin 70)],
      [uniform (Fin 3), uniform (Fin 3)],
      [uniform (Fin 10), uniform (Fin 10)],
      [uniform (Fin 101.3), uniform (Fin 101.3)]]"

text \<open>The same arrays with the temperature -240 in place of 15.\<close>

definition cold_store :: store where
  "cold_store =
     [[uniform (Fin (- 240)), uniform (Fin (- 240))],
      [uniform (Fin 70), uniform (Fin 70)],
      [uniform (Fin 3), uniform (Fin 3)],
      [uniform (Fin 10), uniform (Fin 10)],
      [uniform (Fin 101.3), uniform (Fin 101.3)]]"

section \<open>Properties\<close>

subsection \<open>Rounding to float64\<close>

lemma rne_error: "\<bar>of_int (rne y) - y\<bar> \<le> 1 / 2"
  unfolding rne_def Let_def by (auto simp: abs_if) linarith+

lemma rne_of_int: "rne (of_int k) = k"
  by (simp add: rne_def)

lemma f64_exponent:
  assumes "x \<noteq> 0"
  shows "2 powr (of_int \<lfloor>log 2 \<bar>x\<bar>\<rfloor>) \<le> \<bar>x\<bar>"
    and "\<bar>x\<bar> < 2 powr (of_int \<lfloor>log 2 \<bar>x\<bar>\<rfloor> + 1)"
proof -
  have "0 < \<bar>x\<bar>" using assms by simp
  then have "\<lfloor>log 2 \<bar>x\<bar>\<rfloor> = \<lfloor>log 2 \<bar>x\<bar>\<rfloor> \<longleftrightarrow>
      2 powr (of_int \<lfloor>log 2 \<bar>x\<bar>\<rfloor>) \<le> \<bar>x\<bar> \<and> \<bar>x\<bar> < 2 powr (of_int (\<lfloor>log 2 \<bar>x\<bar>\<rfloor> + 1))"
    by (intro floor_log_eq_powr_iff) simp_all
  then show "2 powr (of_int \<lfloor>log 2 \<bar>x\<bar>\<rfloor>) \<le> \<bar>x\<bar>"
    and "\<bar>x\<bar> < 2 powr (of_int \<lfloor>log 2 \<bar>x\<bar>\<rfloor> + 1)"
    by simp_all
qed


lemma f64_error: "\<bar>f64 x - x\<bar> \<le> \<bar>x\<bar> / 2 ^ 53"
proof (cases "x = 0")
  case True
  then show ?thesis by (simp add: f64_def)
next
  case False
  define e where "e = \<lfloor>log 2 \<bar>x\<bar>\<rfloor>"
  define u :: real where "u = 2 powr (of_int e - 52)"
  have u: "0 < u" by (simp add: u_def)
  have inv: "2 powr (52 - of_int e) = 1 / u"
    by (simp add: u_def powr_diff)
  have f: "f64 x = of_int (rne (x / u)) * u"
    using False by (simp add: f64_def Let_def e_def[symmetric] inv u_def[symmetric])
  have "\<bar>f64 x - x\<bar> = \<bar>of_int (rne (x / u)) - x / u\<bar> * u"
  proof -
    have "f64 x - x = (of_int (rne (x / u)) - x / u) * u"
      using u by (simp add: f field_simps)
    then show ?thesis using u by (simp add: abs_mult)
  qed
  also have "\<dots> \<le> (1 / 2) * u"
    using u rne_error[of "x / u"] by (intro mult_right_mono) simp_all
  also have "\<dots> = 2 powr (of_int e) / 2 ^ 53"
    by (simp add: u_def powr_diff)
  also have "\<dots> \<le> \<bar>x\<bar> / 2 ^ 53"
    using f64_exponent(1)[OF False] by (intro divide_right_mono) (simp_all add: e_def)
  finally show ?thesis .
qed

lemma f64_bounds:
  assumes "0 \<le> a" and "a \<le> x" and "x \<le> b"
  shows "a * (1 - 1 / 2 ^ 53) \<le> f64 x" and "f64 x \<le> b * (1 + 1 / 2 ^ 53)"
proof -
  have x: "0 \<le> x" using assms by simp
  from f64_error[of x] x have "\<bar>f64 x - x\<bar> \<le> x / 2 ^ 53" by simp
  then have e: "x - x / 2 ^ 53 \<le> f64 x" "f64 x \<le> x + x / 2 ^ 53"
    by linarith+
  have "a * (1 - 1 / 2 ^ 53) \<le> x * (1 - 1 / 2 ^ 53)"
    using assms by (intro mult_right_mono) simp_all
  with e show "a * (1 - 1 / 2 ^ 53) \<le> f64 x" by (simp add: algebra_simps)
  have "x * (1 + 1 / 2 ^ 53) \<le> b * (1 + 1 / 2 ^ 53)"
    using assms by (intro mult_right_mono) simp_all
  with e show "f64 x \<le> b * (1 + 1 / 2 ^ 53)" by (simp add: algebra_simps)
qed

lemma f64_zero: "f64 0 = 0"
  by (simp add: f64_def)

lemma f64_of_nat:
  assumes "n < 2 ^ 53"
  shows "f64 (real n) = real n"
proof (cases "n = 0")
  case True
  then show ?thesis by (simp add: f64_def)
next
  case False
  define e where "e = \<lfloor>log 2 \<bar>real n\<bar>\<rfloor>"
  have nz: "real n \<noteq> 0" using False by simp
  have lo: "2 powr (of_int e) \<le> real n"
    using f64_exponent(1)[OF nz] by (simp add: e_def)
  have "2 powr (of_int e) < (2 :: real) powr 53"
  proof -
    have "real n < 2 ^ 53" using assms by (metis of_nat_less_iff of_nat_numeral of_nat_power)
    also have "\<dots> = 2 powr 53" by simp
    finally show ?thesis using lo by simp
  qed
  then have "of_int e < (53 :: real)" by (rule powr_less_cancel) simp
  then have e52: "e \<le> 52" by linarith
  define k where "k = nat (52 - e)"
  have k: "(2 :: real) powr (52 - of_int e) = 2 ^ k"
  proof -
    have "52 - of_int e = real k" using e52 by (simp add: k_def)
    then show ?thesis by (simp add: powr_realpow)
  qed
  have rn: "rne (real n * 2 ^ k) = int (n * 2 ^ k)"
  proof -
    have "real n * 2 ^ k = of_int (int (n * 2 ^ k))" by simp
    then show ?thesis by (simp only: rne_of_int)
  qed
  have "f64 (real n) = of_int (rne (real n * 2 powr (52 - of_int e))) * 2 powr (of_int e - 52)"
    using nz by (simp add: f64_def e_def Let_def)
  also have "\<dots> = real n * (2 powr (52 - of_int e) * 2 powr (of_int e - 52))"
    unfolding k rn by (simp add: k[symmetric])
  also have "2 powr (52 - of_int e) * 2 powr (of_int e - 52) = (1 :: real)"
    by (simp add: powr_add[symmetric])
  finally show ?thesis by simp
qed











lemma f64_rel:
  assumes "0 \<le> x"
  shows "x * (1 - 1 / 2 ^ 53) \<le> f64 x" and "f64 x \<le> x * (1 + 1 / 2 ^ 53)"
  using f64_bounds[OF assms order_refl order_refl] by simp_all

lemma decimal_hour_bounds:
  "(real h + real m / 60) * (1 - 1 / 2 ^ 53)\<^sup>2 \<le> decimal_hour h m"
  "decimal_hour h m \<le> (real h + real m / 60) * (1 + 1 / 2 ^ 53)\<^sup>2"
proof -
  define e :: real where "e = 1 / 2 ^ 53"
  have e: "0 \<le> e" "e \<le> 1" by (simp_all add: e_def)
  define x where "x = real m / 60"
  define y where "y = f64 x"
  have x: "0 \<le> x" by (simp add: x_def)
  have y: "x * (1 - e) \<le> y" "y \<le> x * (1 + e)"
    using f64_rel[OF x] by (simp_all add: y_def e_def)
  have y0: "0 \<le> y" using y(1) x e by (smt (verit) mult_nonneg_nonneg)
  have hy: "0 \<le> real h + y" using y0 by simp
  have lo1: "(real h + x) * (1 - e) \<le> real h + y"
  proof -
    have "real h * (1 - e) \<le> real h" using e by (simp add: mult_left_le)
    with y(1) show ?thesis by (simp add: algebra_simps)
  qed
  have hi1: "real h + y \<le> (real h + x) * (1 + e)"
  proof -
    have "real h \<le> real h * (1 + e)" using e by (simp add: algebra_simps)
    with y(2) show ?thesis by (simp add: algebra_simps)
  qed
  have d: "decimal_hour h m = f64 (real h + y)"
    by (simp add: decimal_hour_def y_def x_def)
  have "(real h + x) * (1 - e)\<^sup>2 = ((real h + x) * (1 - e)) * (1 - e)"
    by (simp add: power2_eq_square)
  also have "\<dots> \<le> (real h + y) * (1 - e)"
    using lo1 e by (intro mult_right_mono) simp_all
  also have "\<dots> \<le> f64 (real h + y)"
    using f64_rel(1)[OF hy] by (simp add: e_def)
  finally show "(real h + real m / 60) * (1 - 1 / 2 ^ 53)\<^sup>2 \<le> decimal_hour h m"
    by (simp add: d x_def e_def)
  have "f64 (real h + y) \<le> (real h + y) * (1 + e)"
    using f64_rel(2)[OF hy] by (simp add: e_def)
  also have "\<dots> \<le> ((real h + x) * (1 + e)) * (1 + e)"
    using hi1 e by (intro mult_right_mono) simp_all
  also have "\<dots> = (real h + x) * (1 + e)\<^sup>2"
    by (simp add: power2_eq_square)
  finally show "decimal_hour h m \<le> (real h + real m / 60) * (1 + 1 / 2 ^ 53)\<^sup>2"
    by (simp add: d x_def e_def)
qed

lemma daylight_sum_bounds:
  assumes "0 \<le> d"
  shows "(real h + real m / 60 + d) * (1 - 1 / 2 ^ 53) ^ 3 \<le> f64 (decimal_hour h m + d)"
    and "f64 (decimal_hour h m + d) \<le> (real h + real m / 60 + d) * (1 + 1 / 2 ^ 53) ^ 3"
proof -
  define e :: real where "e = 1 / 2 ^ 53"
  have e: "0 \<le> e" "e \<le> 1" by (simp_all add: e_def)
  define x where "x = real h + real m / 60"
  define a where "a = decimal_hour h m"
  have x: "0 \<le> x" by (simp add: x_def)
  have a: "x * (1 - e)\<^sup>2 \<le> a" "a \<le> x * (1 + e)\<^sup>2"
    using decimal_hour_bounds[of h m] by (simp_all add: a_def x_def e_def)
  have a0: "0 \<le> a"
  proof -
    have "0 \<le> x * (1 - e)\<^sup>2" using x by simp
    with a(1) show ?thesis by simp
  qed
  have ad: "0 \<le> a + d" using a0 assms by simp
  have lo: "(x + d) * (1 - e)\<^sup>2 \<le> a + d"
  proof -
    have "(1 - e)\<^sup>2 \<le> 1" using e by (simp add: power_le_one)
    then have "d * (1 - e)\<^sup>2 \<le> d" using assms by (simp add: mult_left_le)
    with a(1) show ?thesis by (simp add: algebra_simps)
  qed
  have hi: "a + d \<le> (x + d) * (1 + e)\<^sup>2"
  proof -
    have "1 \<le> (1 + e)\<^sup>2" using e by (simp add: one_le_power)
    then have "d \<le> d * (1 + e)\<^sup>2" using assms by (simp add: mult_le_cancel_left1)
    with a(2) show ?thesis by (simp add: algebra_simps)
  qed
  have "(x + d) * (1 - e) ^ 3 = ((x + d) * (1 - e)\<^sup>2) * (1 - e)"
    by (simp add: power3_eq_cube power2_eq_square)
  also have "\<dots> \<le> (a + d) * (1 - e)"
    using lo e by (intro mult_right_mono) simp_all
  also have "\<dots> \<le> f64 (a + d)"
    using f64_rel(1)[OF ad] by (simp add: e_def)
  finally show "(real h + real m / 60 + d) * (1 - 1 / 2 ^ 53) ^ 3 \<le> f64 (decimal_hour h m + d)"
    by (simp add: a_def x_def e_def)
  have "f64 (a + d) \<le> (a + d) * (1 + e)"
    using f64_rel(2)[OF ad] by (simp add: e_def)
  also have "\<dots> \<le> ((x + d) * (1 + e)\<^sup>2) * (1 + e)"
    using hi e by (intro mult_right_mono) simp_all
  also have "\<dots> = (x + d) * (1 + e) ^ 3"
    by (simp add: power3_eq_cube power2_eq_square)
  finally show "f64 (decimal_hour h m + d) \<le> (real h + real m / 60 + d) * (1 + 1 / 2 ^ 53) ^ 3"
    by (simp add: a_def x_def e_def)
qed

lemma decimal_hour_whole:
  assumes "h < 2 ^ 53"
  shows "decimal_hour h 0 = real h"
  using f64_of_nat[OF assms] by (simp add: decimal_hour_def f64_zero)

subsection \<open>De-accumulation is the forward difference\<close>

lemma length_deaccumulate: "length (deaccumulate data) = length data"
  by (cases data) (simp_all add: deaccumulate_def arr_sub_def)

lemma nth_deaccumulate:
  assumes "i < length data"
  shows "deaccumulate data ! i =
           (if i = 0 then data ! 0 else (\<lambda>c. (data ! i) c - (data ! (i - 1)) c))"
proof (cases data)
  case Nil
  with assms show ?thesis by simp
next
  case (Cons g gs)
  show ?thesis
  proof (cases i)
    case 0
    then show ?thesis by (simp add: deaccumulate_def Cons)
  next
    case (Suc j)
    with assms Cons have j: "j < length gs" by simp
    then have jb: "j < length (butlast (g # gs))"
      by (simp del: butlast.simps add: length_butlast)
    with j have "arr_sub gs (butlast (g # gs)) ! j = (\<lambda>c. (gs ! j) c - (butlast (g # gs) ! j) c)"
      by (simp del: butlast.simps add: arr_sub_def)
    moreover have "butlast (g # gs) ! j = (g # gs) ! j"
      using jb by (rule nth_butlast)
    ultimately show ?thesis
      using Suc Cons by (simp add: deaccumulate_def)
  qed
qed

lemma deaccumulate_vars_result:
  "distinct vars \<Longrightarrow> \<forall>v \<in> set vars. ds v \<noteq> None \<Longrightarrow>
   deaccumulate_vars vars ds =
     Inr (\<lambda>v. if v \<in> set vars then map_option deaccumulate (ds v) else ds v)"
proof (induction vars arbitrary: ds)
  case Nil
  then show ?case by simp
next
  case (Cons var vars)
  then obtain data where d: "ds var = Some data" by auto
  have "deaccumulate_vars vars (ds(var \<mapsto> deaccumulate data)) =
     Inr (\<lambda>v. if v \<in> set vars then map_option deaccumulate ((ds(var \<mapsto> deaccumulate data)) v) else (ds(var \<mapsto> deaccumulate data)) v)"
    using Cons.prems by (intro Cons.IH) auto
  then show ?case using d Cons.prems by (auto intro!: ext)
qed

lemma distinct_accumulated_vars: "distinct accumulated_vars"
  by (simp add: accumulated_vars_def)




subsection \<open>The round trip through the cumulative sum\<close>

lemma fl_add_diff: "Fin a + (x - Fin a) = x"
  by (cases x) (simp_all add: minus_fl_def)

lemma cumsum_from_diffs:
  "i < length xs \<Longrightarrow> \<forall>j \<le> i. is_finite ((p # xs) ! j) \<Longrightarrow>
   cumsum_from p (map2 (-) xs (butlast (p # xs))) ! i = xs ! i"
proof (induction xs arbitrary: p i)
  case Nil
  then show ?case by simp
next
  case (Cons x xs)
  from Cons.prems(2) have "is_finite p" by auto
  then obtain a where p: "p = Fin a" by (cases p) auto
  have step: "map2 (-) (x # xs) (butlast (p # x # xs)) = (x - p) # map2 (-) xs (butlast (x # xs))"
    by simp
  show ?case
  proof (cases i)
    case 0
    then show ?thesis by (simp add: p fl_add_diff)
  next
    case (Suc k)
    with Cons.prems have k: "k < length xs" by simp
    have fin: "\<forall>j \<le> k. is_finite ((x # xs) ! j)"
    proof (intro allI impI)
      fix j assume "j \<le> k"
      then have "Suc j \<le> i" using Suc by simp
      with Cons.prems(2) have "is_finite ((p # x # xs) ! Suc j)" by blast
      then show "is_finite ((x # xs) ! j)" by simp
    qed
    have "cumsum_from x (map2 (-) xs (butlast (x # xs))) ! k = xs ! k"
      using k fin by (rule Cons.IH)
    then show ?thesis
      unfolding step using Suc by (simp add: p fl_add_diff)
  qed
qed

lemma series_deaccumulate:
  "series (deaccumulate data) c =
     take 1 (series data c) @ map2 (-) (drop 1 (series data c)) (butlast (series data c))"
proof -
  have m: "map (\<lambda>g. g c) (map2 (\<lambda>g h c. g c - h c) as bs) =
           map2 (-) (map (\<lambda>g. g c) as) (map (\<lambda>g. g c) bs)" for as bs :: field
    by (induction as arbitrary: bs) (auto simp: zip_Cons1 split: list.splits)
  show ?thesis
    unfolding series_def deaccumulate_def arr_sub_def map_append m
    by (simp only: take_map drop_map map_butlast)
qed

text \<open>
  C2, amended. At one cell, the cumulative sum of the de-accumulated series equals the
  original sample at index \<open>i\<close>, provided the samples before \<open>i\<close> are finite numbers.
\<close>

theorem deaccumulate_round_trip:
  assumes "i < length data" and "\<forall>j < i. is_finite ((data ! j) c)"
  shows "cumsum (series (deaccumulate data) c) ! i = (data ! i) c"
proof (cases data)
  case Nil
  with assms show ?thesis by simp
next
  case (Cons g gs)
  let ?p = "g c" and ?xs = "series gs c"
  have ser: "series (deaccumulate data) c = ?p # map2 (-) ?xs (butlast (?p # ?xs))"
    unfolding series_deaccumulate by (simp add: Cons series_def)
  show ?thesis
  proof (cases i)
    case 0
    then show ?thesis unfolding ser by (simp add: Cons)
  next
    case (Suc k)
    with assms Cons have k: "k < length ?xs" by (simp add: series_def)
    have fin: "\<forall>j \<le> k. is_finite ((?p # ?xs) ! j)"
    proof (intro allI impI)
      fix j assume j: "j \<le> k"
      then have "j < i" using Suc by simp
      with assms(2) have "is_finite ((data ! j) c)" by blast
      moreover have "(?p # ?xs) ! j = (data ! j) c"
        using j k by (cases j) (simp_all add: Cons series_def)
      ultimately show "is_finite ((?p # ?xs) ! j)" by simp
    qed
    have "cumsum_from ?p (map2 (-) ?xs (butlast (?p # ?xs))) ! k = ?xs ! k"
      using k fin by (rule cumsum_from_diffs)
    moreover have "?xs ! k = (data ! i) c"
      using k Suc by (simp add: Cons series_def)
    ultimately show ?thesis
      unfolding ser using Suc by simp
  qed
qed

text \<open>
  C2 as stated fails after a gap: the series 1, not-a-number, 3 de-accumulates to
  1, not-a-number, not-a-number, and its cumulative sum at index 2 is not 3.
\<close>

theorem deaccumulate_round_trip_gap:
  "cumsum (series (deaccumulate gap_field) (0, 0)) ! 2 \<noteq> (gap_field ! 2) (0, 0)"
  by (simp add: gap_field_def uniform_def series_def deaccumulate_def arr_sub_def minus_fl_def)

theorem deaccumulate_round_trip_witness:
  "2 < length [uniform (Fin 0), uniform (Fin 5), uniform (Fin 5), uniform (Fin 12)] \<and>
   cumsum (series (deaccumulate [uniform (Fin 0), uniform (Fin 5), uniform (Fin 5), uniform (Fin 12)]) (0, 0)) ! 2
     = Fin 5"
proof -
  have l: "2 < length [uniform (Fin 0), uniform (Fin 5), uniform (Fin 5), uniform (Fin 12)]"
    by simp
  have f: "\<forall>j < 2. is_finite (([uniform (Fin 0), uniform (Fin 5), uniform (Fin 5), uniform (Fin 12)] ! j) (0, 0))"
    by (simp add: uniform_def nth_Cons' less_Suc_eq numeral_2_eq_2)
  from deaccumulate_round_trip[OF l f] l show ?thesis
    by (simp add: uniform_def)
qed

subsection \<open>The formulas of one cell on finite samples\<close>

lemma clip_min0_nonneg: "clip_min0 x = NaN \<or> fle (Fin 0) (clip_min0 x)"
  by (cases x) simp_all

lemma np_exp_in_range:
  "exp a \<le> max_float \<Longrightarrow> min_subnormal / 2 < exp a \<Longrightarrow> np_exp (Fin a) = Fin (exp a)"
  by simp

lemma es_finite:
  assumes "T + 237.3 \<noteq> 0"
    and "exp (17.27 * T / (T + 237.3)) \<le> max_float"
    and "min_subnormal / 2 < exp (17.27 * T / (T + 237.3))"
  shows "Fin 0.6108 * np_exp (Fin 17.27 * Fin T / (Fin T + Fin 237.3)) = Fin (es_spec T)"
proof -
  have "Fin 17.27 * Fin T / (Fin T + Fin 237.3) = Fin (17.27 * T / (T + 237.3))"
    using assms(1) by simp
  then show ?thesis
    by (simp only: np_exp_in_range[OF assms(2,3)] times_fl.simps es_spec_def)
qed

lemma makkink_cell_finite:
  assumes "T + 237.3 \<noteq> 0" and "lambda_spec T \<noteq> 0" and "s_spec T + gamma_spec T P \<noteq> 0"
    and "exp (17.27 * T / (T + 237.3)) \<le> max_float"
    and "min_subnormal / 2 < exp (17.27 * T / (T + 237.3))"
  shows "makkink_cell (Fin T) (Fin rs) (Fin P) = Fin (makkink_spec T rs P)"
proof -
  have l: "2.501 - 0.002361 * T \<noteq> 0" using assms(2) by (simp add: lambda_spec_def)
  have lam: "Fin 2.501 - Fin 0.002361 * Fin T = Fin (lambda_spec T)"
    by (simp add: minus_fl_def lambda_spec_def)
  have gam: "(Fin 0.001013 * Fin P) / (Fin 0.622 * Fin (lambda_spec T)) = Fin (gamma_spec T P)"
    using assms(2) by (simp add: gamma_spec_def)
  have es: "Fin 0.6108 * np_exp (Fin 17.27 * Fin T / (Fin T + Fin 237.3)) = Fin (es_spec T)"
    using assms(1,4,5) by (rule es_finite)
  have s: "(Fin 4098 * Fin (es_spec T)) / pow2 (Fin T + Fin 237.3) = Fin (s_spec T)"
    using assms(1) by (simp add: s_spec_def)
  have pet: "(Fin 0.65 * Fin (s_spec T) * Fin rs) / (Fin (lambda_spec T) * (Fin (s_spec T) + Fin (gamma_spec T P)))
      = Fin ((0.65 * s_spec T * rs) / (lambda_spec T * (s_spec T + gamma_spec T P)))"
    using assms(2,3) by simp
  show ?thesis
    unfolding makkink_cell_def Let_def lam gam es s pet
    by (simp add: makkink_spec_def max.commute)
qed

lemma nth_calculate_makkink:
  assumes "i < length (calculate_makkink temp rs pres)"
  shows "i < length temp" "i < length rs" "i < length pres"
    "calculate_makkink temp rs pres ! i =
       (\<lambda>c. makkink_cell ((temp ! i) c) ((rs ! i) c) ((pres ! i) c))"
  using assms by (simp_all add: calculate_makkink_def)

lemma length_calculate_makkink:
  "length (calculate_makkink temp rs pres) = min (length temp) (min (length rs) (length pres))"
  by (simp add: calculate_makkink_def)

lemma penman_monteith_cell_finite:
  assumes "T + 237.3 \<noteq> 0" and "lambda_spec T \<noteq> 0" and "T + 273 \<noteq> 0"
    and "s_spec T + gamma_spec T P * (1 + 0.34 * u2_spec w) \<noteq> 0"
    and "exp (17.27 * T / (T + 237.3)) \<le> max_float"
    and "min_subnormal / 2 < exp (17.27 * T / (T + 237.3))"
  shows "penman_monteith_cell (Fin T) (Fin RH) (Fin w) (Fin n) (Fin g) (Fin P)
           = Fin (penman_monteith_spec T RH w n g P)"
proof -
  have lam: "Fin 2.501 - Fin 0.002361 * Fin T = Fin (lambda_spec T)"
    by (simp add: minus_fl_def lambda_spec_def)
  have gam: "Fin 0.001013 * Fin P / (Fin 0.622 * Fin (lambda_spec T)) = Fin (gamma_spec T P)"
    using assms(2) by (simp add: gamma_spec_def)
  have es: "Fin 0.6108 * np_exp (Fin 17.27 * Fin T / (Fin T + Fin 237.3)) = Fin (es_spec T)"
    using assms(1,5,6) by (rule es_finite)
  have ea: "Fin RH / Fin 100 * Fin (es_spec T) = Fin (ea_spec T RH)"
    by (simp add: ea_spec_def)
  have s: "(Fin 4098 * Fin (es_spec T)) / pow2 (Fin T + Fin 237.3) = Fin (s_spec T)"
    using assms(1) by (simp add: s_spec_def)
  have u2: "Fin (4.87 / ln (67.8 * 10 - 5.42)) * Fin w = Fin (u2_spec w)"
    by (simp add: u2_spec_def)
  have num: "Fin 0.408 * Fin (s_spec T) * (Fin n - Fin g)
        + Fin (gamma_spec T P) * Fin 37 / (Fin T + Fin 273) * Fin (u2_spec w) * (Fin (es_spec T) - Fin (ea_spec T RH))
      = Fin (0.408 * s_spec T * (n - g)
             + gamma_spec T P * (37 / (T + 273)) * u2_spec w * (es_spec T - ea_spec T RH))"
    using assms(3) by (simp add: minus_fl_def)
  have den: "Fin (s_spec T) + Fin (gamma_spec T P) * (Fin 1 + Fin 0.34 * Fin (u2_spec w))
      = Fin (s_spec T + gamma_spec T P * (1 + 0.34 * u2_spec w))"
    by simp
  show ?thesis
    unfolding penman_monteith_cell_def Let_def lam gam es ea s u2 num den
    using assms(4) by (simp add: penman_monteith_spec_def max.commute)
qed

subsection \<open>Not-a-number propagates\<close>

lemma fl_nan_absorbs:
  "x + NaN = NaN" "NaN + x = NaN" "x * NaN = NaN" "NaN * x = NaN"
  "x / NaN = NaN" "NaN / x = NaN" "x - NaN = NaN" "NaN - x = NaN"
  by (cases x; simp add: minus_fl_def)+

lemma makkink_cell_nan:
  "makkink_cell NaN r p = NaN" "makkink_cell t NaN p = NaN" "makkink_cell t r NaN = NaN"
  by (simp_all add: makkink_cell_def Let_def fl_nan_absorbs)

lemma penman_monteith_cell_nan:
  "penman_monteith_cell NaN r w n g p = NaN" "penman_monteith_cell t NaN w n g p = NaN"
  "penman_monteith_cell t r NaN n g p = NaN" "penman_monteith_cell t r w NaN g p = NaN"
  "penman_monteith_cell t r w n NaN p = NaN" "penman_monteith_cell t r w n g NaN = NaN"
  by (simp_all add: penman_monteith_cell_def Let_def fl_nan_absorbs)

subsection \<open>The daylight factors, the soil heat flux loop and the store\<close>

lemma bind_err_Inr:
  "bind_err m f = Inr y \<longleftrightarrow> (\<exists>x. m = Inr x \<and> f x = Inr y)"
  by (cases m) (simp_all add: bind_err_def)

lemma get_daylight_factors_loop_Inr:
  "get_daylight_factors_loop env tzinfo lat lng ts = Inr dfs \<Longrightarrow>
   length dfs = length ts \<and>
   (\<forall>i < length ts. \<exists>r_sunrise r_sunset dst sunrise sunset.
       requests_get env lat lng (date (ts ! i)) = Some (r_sunrise, r_sunset) \<and>
       tzinfo (ts ! i) = Some dst \<and>
       strptime env r_sunrise = Some sunrise \<and>
       strptime env r_sunset = Some sunset \<and>
       dfs ! i = (f64 (decimal_hour (hour sunrise) (minute sunrise) + (if dst = 0 then 1 else 2)),
                  f64 (decimal_hour (hour sunset) (minute sunset) + (if dst = 0 then 1 else 2))))"
proof (induction ts arbitrary: dfs)
  case Nil
  then show ?case by simp
next
  case (Cons t ts)
  from Cons.prems obtain r_sunrise r_sunset dst sunrise sunset rest where
    rq: "requests_get env lat lng (date t) = Some (r_sunrise, r_sunset)"
    and tz: "tzinfo t = Some dst"
    and sr: "strptime env r_sunrise = Some sunrise"
    and ss: "strptime env r_sunset = Some sunset"
    and rest: "get_daylight_factors_loop env tzinfo lat lng ts = Inr rest"
    and dfs: "dfs = (f64 (decimal_hour (hour sunrise) (minute sunrise) + (if dst = 0 then 1 else 2)),
                  f64 (decimal_hour (hour sunset) (minute sunset) + (if dst = 0 then 1 else 2))) # rest"
    by (auto simp: Let_def bind_err_Inr split: option.splits prod.splits if_splits)
  from Cons.IH[OF rest] have len: "length rest = length ts"
    and nth: "\<forall>i < length ts. \<exists>r_sunrise r_sunset dst sunrise sunset.
       requests_get env lat lng (date (ts ! i)) = Some (r_sunrise, r_sunset) \<and>
       tzinfo (ts ! i) = Some dst \<and>
       strptime env r_sunrise = Some sunrise \<and>
       strptime env r_sunset = Some sunset \<and>
       rest ! i = (f64 (decimal_hour (hour sunrise) (minute sunrise) + (if dst = 0 then 1 else 2)),
                  f64 (decimal_hour (hour sunset) (minute sunset) + (if dst = 0 then 1 else 2)))"
    by blast+
  show ?case
  proof (intro conjI allI impI)
    show "length dfs = length (t # ts)" using len dfs by simp
  next
    fix i assume i: "i < length (t # ts)"
    show "\<exists>r_sunrise r_sunset dst sunrise sunset.
       requests_get env lat lng (date ((t # ts) ! i)) = Some (r_sunrise, r_sunset) \<and>
       tzinfo ((t # ts) ! i) = Some dst \<and>
       strptime env r_sunrise = Some sunrise \<and>
       strptime env r_sunset = Some sunset \<and>
       dfs ! i = (f64 (decimal_hour (hour sunrise) (minute sunrise) + (if dst = 0 then 1 else 2)),
                  f64 (decimal_hour (hour sunset) (minute sunset) + (if dst = 0 then 1 else 2)))"
    proof (cases i)
      case 0
      then show ?thesis using rq tz sr ss dfs by simp
    next
      case (Suc j)
      with i have "j < length ts" by simp
      with nth show ?thesis using Suc dfs by simp
    qed
  qed
qed

lemma get_daylight_factors_Inr:
  assumes "get_daylight_factors env ts tz lat lng = Inr dfs"
  shows "\<exists>tzinfo. pytz_timezone env tz = Some tzinfo \<and>
   length dfs = length ts \<and>
   (\<forall>i < length ts. \<exists>r_sunrise r_sunset dst sunrise sunset.
       requests_get env lat lng (date (ts ! i)) = Some (r_sunrise, r_sunset) \<and>
       tzinfo (ts ! i) = Some dst \<and>
       strptime env r_sunrise = Some sunrise \<and>
       strptime env r_sunset = Some sunset \<and>
       dfs ! i = (f64 (decimal_hour (hour sunrise) (minute sunrise) + (if dst = 0 then 1 else 2)),
                  f64 (decimal_hour (hour sunset) (minute sunset) + (if dst = 0 then 1 else 2))))"
proof -
  from assms obtain tzinfo where tz: "pytz_timezone env tz = Some tzinfo"
    and loop: "get_daylight_factors_loop env tzinfo lat lng ts = Inr dfs"
    by (auto simp: get_daylight_factors_def split: option.splits)
  from get_daylight_factors_loop_Inr[OF loop] tz show ?thesis by blast
qed

lemma length_daylight_factors:
  "get_daylight_factors env ts tz lat lng = Inr dfs \<Longrightarrow> length dfs = length ts"
  using get_daylight_factors_Inr by blast

lemma adjust_G_frame:
  "adjust_G h G rn ts es = (r, h') \<Longrightarrow>
   length h' = length h \<and> (\<forall>a. a \<noteq> G \<longrightarrow> h' ! a = h ! a)"
proof (induction h G rn ts es arbitrary: r h' rule: adjust_G.induct)
  case (1 h G rn timeseries)
  then show ?case by simp
next
  case (2 h G rn timeseries i sunrise sunset rest)
  let ?hour = "decimal_hour (hour (timeseries ! i)) (minute (timeseries ! i))"
  show ?case
  proof (cases "i < length timeseries \<and> i < length (h ! rn) \<and> i < length (h ! G)")
    case False
    with "2.prems" show ?thesis by (auto simp: Let_def split: if_splits)
  next
    case ok: True
    show ?thesis
    proof (cases "sunrise \<le> ?hour \<and> ?hour < sunset")
      case True
      with ok "2.prems" have
        "adjust_G (h[G := (h ! G)[i := (\<lambda>c. Fin 0.1 * (h ! rn ! i) c)]]) G rn timeseries rest = (r, h')"
        by (simp add: Let_def)
      from "2.IH"(1)[OF _ refl _ _ this] ok True show ?thesis by simp
    next
      case False
      with ok "2.prems" have
        "adjust_G (h[G := (h ! G)[i := (\<lambda>c. Fin 0.5 * (h ! rn ! i) c)]]) G rn timeseries rest = (r, h')"
        by (auto simp add: Let_def)
      from "2.IH"(2)[OF _ refl _ _ this] ok False show ?thesis by simp
    qed
  qed
qed

lemma adjust_G_enumerate:
  "adjust_G h G rn ts (enumerate k dfs) = (None, h') \<Longrightarrow> G < length h \<Longrightarrow> G \<noteq> rn \<Longrightarrow>
   (\<forall>j < length dfs. k + j < length ts \<and> k + j < length (h ! rn)) \<and>
   length (h' ! G) = length (h ! G) \<and>
   (\<forall>i < length (h ! G). h' ! G ! i =
      (if k \<le> i \<and> i < k + length dfs
       then (\<lambda>c. Fin (if fst (dfs ! (i - k)) \<le> decimal_hour (hour (ts ! i)) (minute (ts ! i))
                          \<and> decimal_hour (hour (ts ! i)) (minute (ts ! i)) < snd (dfs ! (i - k))
                        then 0.1 else 0.5) * (h ! rn ! i) c)
       else h ! G ! i))"
proof (induction dfs arbitrary: k h)
  case Nil
  then show ?case by auto
next
  case (Cons d dfs)
  obtain sunrise sunset where d: "d = (sunrise, sunset)" by (cases d)
  let ?hour = "decimal_hour (hour (ts ! k)) (minute (ts ! k))"
  let ?f = "if sunrise \<le> ?hour \<and> ?hour < sunset then 0.1 else 0.5 :: real"
  let ?h1 = "h[G := (h ! G)[k := (\<lambda>c. Fin ?f * (h ! rn ! k) c)]]"
  have en: "enumerate k (d # dfs) = (k, sunrise, sunset) # enumerate (Suc k) dfs"
    by (simp add: d)
  from Cons.prems(1) have ok: "k < length ts" "k < length (h ! rn)" "k < length (h ! G)"
    unfolding en by (auto simp: Let_def split: if_splits)
  from Cons.prems(1) ok have run: "adjust_G ?h1 G rn ts (enumerate (Suc k) dfs) = (None, h')"
    unfolding en by (auto simp: Let_def split: if_splits)
  have G1: "?h1 ! G = (h ! G)[k := (\<lambda>c. Fin ?f * (h ! rn ! k) c)]"
    using Cons.prems(2) by simp
  have rn1: "?h1 ! rn = h ! rn"
    using Cons.prems(3) by simp
  have "G < length ?h1" using Cons.prems(2) by simp
  from Cons.IH[OF run this Cons.prems(3)]
  have a: "\<forall>j < length dfs. Suc k + j < length ts \<and> Suc k + j < length (h ! rn)"
    and c: "length (h' ! G) = length (h ! G)"
    and e: "\<forall>i < length (h ! G). h' ! G ! i =
      (if Suc k \<le> i \<and> i < Suc k + length dfs
       then (\<lambda>c. Fin (if fst (dfs ! (i - Suc k)) \<le> decimal_hour (hour (ts ! i)) (minute (ts ! i))
                          \<and> decimal_hour (hour (ts ! i)) (minute (ts ! i)) < snd (dfs ! (i - Suc k))
                        then 0.1 else 0.5) * (h ! rn ! i) c)
       else (h ! G)[k := (\<lambda>c. Fin ?f * (h ! rn ! k) c)] ! i)"
    unfolding G1 rn1 by simp_all
  show ?case
  proof (intro conjI allI impI)
    fix j assume "j < length (d # dfs)"
    then show "k + j < length ts" using a ok by (cases j) simp_all
  next
    fix j assume "j < length (d # dfs)"
    then show "k + j < length (h ! rn)" using a ok by (cases j) simp_all
  next
    show "length (h' ! G) = length (h ! G)" by (rule c)
  next
    fix i assume i: "i < length (h ! G)"
    consider "i < k" | "i = k" | "Suc k \<le> i"
      by linarith
    then show "h' ! G ! i =
      (if k \<le> i \<and> i < k + length (d # dfs)
       then (\<lambda>c. Fin (if fst ((d # dfs) ! (i - k)) \<le> decimal_hour (hour (ts ! i)) (minute (ts ! i))
                          \<and> decimal_hour (hour (ts ! i)) (minute (ts ! i)) < snd ((d # dfs) ! (i - k))
                        then 0.1 else 0.5) * (h ! rn ! i) c)
       else h ! G ! i)"
    proof cases
      case 1
      then show ?thesis using e i by simp
    next
      case 2
      then show ?thesis using e i ok by (simp add: d)
    next
      case 3
      then have "(d # dfs) ! (i - k) = dfs ! (i - Suc k)"
        by (simp add: nth_Cons' Suc_diff_le)
      then show ?thesis using e i 3 by simp
    qed
  qed
qed

lemma calculate_penman_monteith_frame:
  assumes "calculate_penman_monteith env h temp rh ws rn pres ts = (r, h')"
  shows "length h' = Suc (length h) \<and> (\<forall>a < length h. h' ! a = h ! a)"
proof (cases "get_daylight_factors env ts ''Europe/Copenhagen'' 55.686 12.570")
  case (Inl e)
  with assms have "h' = h @ [h ! rn]"
    by (simp add: calculate_penman_monteith_def deepcopy_def)
  then show ?thesis by (simp add: nth_append)
next
  case (Inr dfs)
  obtain r2 h2 where a: "adjust_G (h @ [h ! rn]) (length h) rn ts (enumerate 0 dfs) = (r2, h2)"
    by (cases "adjust_G (h @ [h ! rn]) (length h) rn ts (enumerate 0 dfs)")
  with assms Inr have "h' = h2"
    by (cases r2) (simp_all add: calculate_penman_monteith_def deepcopy_def)
  moreover from adjust_G_frame[OF a]
  have "length h2 = Suc (length h)" and "\<forall>a. a \<noteq> length h \<longrightarrow> h2 ! a = (h @ [h ! rn]) ! a"
    by simp_all
  ultimately show ?thesis by (simp add: nth_append)
qed

lemma calculate_penman_monteith_Inr:
  assumes run: "calculate_penman_monteith env h temp rh ws rn pres ts = (Inr pm, h')"
    and rn: "rn < length h"
  shows "\<exists>dfs. get_daylight_factors env ts ''Europe/Copenhagen'' 55.686 12.570 = Inr dfs \<and>
      length dfs = length ts \<and>
      length (h' ! length h) = length (h ! rn) \<and>
      length ts \<le> length (h ! rn) \<and>
      (\<forall>i. length ts \<le> i \<and> i < length (h ! rn) \<longrightarrow> h' ! length h ! i = h ! rn ! i) \<and>
      (\<forall>i < length ts. h' ! length h ! i =
         (\<lambda>c. Fin (if fst (dfs ! i) \<le> decimal_hour (hour (ts ! i)) (minute (ts ! i))
                          \<and> decimal_hour (hour (ts ! i)) (minute (ts ! i)) < snd (dfs ! i)
                     then 0.1 else 0.5) * (h ! rn ! i) c)) \<and>
      pm = map (\<lambda>(t, r, w, n, g, p). \<lambda>c.
                  penman_monteith_cell (t c) (r c) (w c) (n c) (g c) (p c))
             (zip (h' ! temp) (zip (h' ! rh) (zip (h' ! ws)
               (zip (h' ! rn) (zip (h' ! length h) (h' ! pres))))))"
proof -
  from run obtain dfs where dfs: "get_daylight_factors env ts ''Europe/Copenhagen'' 55.686 12.570 = Inr dfs"
    by (cases "get_daylight_factors env ts ''Europe/Copenhagen'' 55.686 12.570")
       (simp_all add: calculate_penman_monteith_def deepcopy_def)
  let ?h1 = "h @ [h ! rn]"
  obtain r2 h2 where a: "adjust_G ?h1 (length h) rn ts (enumerate 0 dfs) = (r2, h2)"
    by (cases "adjust_G ?h1 (length h) rn ts (enumerate 0 dfs)")
  from run dfs a have r2: "r2 = None" and h2: "h2 = h'"
    and pm: "pm = map (\<lambda>(t, r, w, n, g, p). \<lambda>c.
                  penman_monteith_cell (t c) (r c) (w c) (n c) (g c) (p c))
             (zip (h2 ! temp) (zip (h2 ! rh) (zip (h2 ! ws)
               (zip (h2 ! rn) (zip (h2 ! length h) (h2 ! pres))))))"
    by (cases r2; simp add: calculate_penman_monteith_def deepcopy_def)+
  have len: "length dfs = length ts"
    using dfs by (rule length_daylight_factors)
  have G1: "?h1 ! length h = h ! rn" by simp
  have rn1: "?h1 ! rn = h ! rn" using rn by (simp add: nth_append)
  have "length h < length ?h1" by simp
  moreover have "length h \<noteq> rn" using rn by simp
  ultimately have e: "(\<forall>j < length dfs. 0 + j < length ts \<and> 0 + j < length (?h1 ! rn)) \<and>
   length (h' ! length h) = length (?h1 ! length h) \<and>
   (\<forall>i < length (?h1 ! length h). h' ! length h ! i =
      (if 0 \<le> i \<and> i < 0 + length dfs
       then (\<lambda>c. Fin (if fst (dfs ! (i - 0)) \<le> decimal_hour (hour (ts ! i)) (minute (ts ! i))
                          \<and> decimal_hour (hour (ts ! i)) (minute (ts ! i)) < snd (dfs ! (i - 0))
                        then 0.1 else 0.5) * (?h1 ! rn ! i) c)
       else ?h1 ! length h ! i))"
    using a[unfolded r2 h2] by (intro adjust_G_enumerate) 
  from e have l1: "\<forall>j < length ts. j < length (h ! rn)"
    unfolding rn1 len by simp
  then have l2: "length ts \<le> length (h ! rn)"
    by (meson not_less order_refl)
  from e have l3: "length (h' ! length h) = length (h ! rn)"
    unfolding G1 by blast
  have l4: "\<forall>i < length ts. h' ! length h ! i =
         (\<lambda>c. Fin (if fst (dfs ! i) \<le> decimal_hour (hour (ts ! i)) (minute (ts ! i))
                          \<and> decimal_hour (hour (ts ! i)) (minute (ts ! i)) < snd (dfs ! i)
                     then 0.1 else 0.5) * (h ! rn ! i) c)"
  proof (intro allI impI)
    fix i assume i: "i < length ts"
    with l1 have "i < length (?h1 ! length h)" unfolding G1 by blast
    with e have "h' ! length h ! i =
      (if 0 \<le> i \<and> i < 0 + length dfs
       then (\<lambda>c. Fin (if fst (dfs ! (i - 0)) \<le> decimal_hour (hour (ts ! i)) (minute (ts ! i))
                          \<and> decimal_hour (hour (ts ! i)) (minute (ts ! i)) < snd (dfs ! (i - 0))
                        then 0.1 else 0.5) * (?h1 ! rn ! i) c)
       else ?h1 ! length h ! i)" by blast
    then show "h' ! length h ! i =
         (\<lambda>c. Fin (if fst (dfs ! i) \<le> decimal_hour (hour (ts ! i)) (minute (ts ! i))
                          \<and> decimal_hour (hour (ts ! i)) (minute (ts ! i)) < snd (dfs ! i)
                     then 0.1 else 0.5) * (h ! rn ! i) c)"
      unfolding rn1 using i len by simp
  qed
  have l5: "\<forall>i. length ts \<le> i \<and> i < length (h ! rn) \<longrightarrow> h' ! length h ! i = h ! rn ! i"
  proof (intro allI impI)
    fix i assume i: "length ts \<le> i \<and> i < length (h ! rn)"
    then have "i < length (?h1 ! length h)" unfolding G1 by blast
    with e have "h' ! length h ! i =
      (if 0 \<le> i \<and> i < 0 + length dfs
       then (\<lambda>c. Fin (if fst (dfs ! (i - 0)) \<le> decimal_hour (hour (ts ! i)) (minute (ts ! i))
                          \<and> decimal_hour (hour (ts ! i)) (minute (ts ! i)) < snd (dfs ! (i - 0))
                        then 0.1 else 0.5) * (?h1 ! rn ! i) c)
       else ?h1 ! length h ! i)" by blast
    then show "h' ! length h ! i = h ! rn ! i"
      unfolding G1 using i len by simp
  qed
  from dfs len l3 l2 l5 l4 pm[unfolded h2] show ?thesis by blast
qed

subsection \<open>Bounds for the end-to-end scenario\<close>

lemma exp_1_ge: "(5/2 :: real) \<le> exp 1"
  using exp_lower_Taylor_quadratic[of "1::real"] by simp

lemma ln_height_bounds: "5 < ln (67.8 * 10 - 5.42 :: real) \<and> ln (67.8 * 10 - 5.42 :: real) < 8"
proof
  have "exp (5::real) = exp 1 ^ 5"
    using exp_of_nat_mult[of 5 "1::real"] by simp
  also have "\<dots> \<le> 3 ^ 5" by (intro power_mono exp_le) simp
  also have "\<dots> < (67.8 * 10 - 5.42 :: real)" by simp
  finally have "exp (5::real) < exp (ln (67.8 * 10 - 5.42))" by simp
  then show "5 < ln (67.8 * 10 - 5.42 :: real)" by (simp only: exp_less_cancel_iff)
next
  have "(67.8 * 10 - 5.42 :: real) < (5/2) ^ 8" by (simp add: power_divide)
  also have "\<dots> \<le> exp 1 ^ 8" by (intro power_mono exp_1_ge) simp
  also have "\<dots> = exp (8::real)"
    using exp_of_nat_mult[of 8 "1::real"] by simp
  finally have "exp (ln (67.8 * 10 - 5.42 :: real)) < exp 8" by simp
  then show "ln (67.8 * 10 - 5.42 :: real) < 8" by (simp only: exp_less_cancel_iff)
qed

lemma u2_spec_3_bounds: "1.826 \<le> u2_spec 3 \<and> u2_spec 3 \<le> 2.922"
proof -
  let ?l = "ln (67.8 * 10 - 5.42 :: real)"
  from ln_height_bounds have l: "5 < ?l" "?l < 8" by simp_all
  have u: "u2_spec 3 = 14.61 / ?l" by (simp add: u2_spec_def)
  have "14.61 / 8 \<le> 14.61 / ?l" using l by (intro divide_left_mono) simp_all
  moreover have "14.61 / ?l \<le> 14.61 / 5" using l by (intro divide_left_mono) simp_all
  ultimately show ?thesis unfolding u by simp
qed

lemma exp_scenario_bound: "exp (17.27 * 15 / (15 + 237.3) :: real) \<le> 2.9"
proof -
  let ?y = "1727 / 26912 :: real"
  have "exp (17.27 * 15 / (15 + 237.3) :: real) = exp (of_nat 16 * ?y)" by simp
  also have "\<dots> = exp ?y ^ 16" by (rule exp_of_nat_mult)
  also have "\<dots> \<le> (1 + ?y + ?y\<^sup>2) ^ 16"
    by (intro power_mono exp_bound) simp_all
  also have "\<dots> \<le> (1.0683 :: real) ^ 16"
    by (intro power_mono) (simp_all add: power2_eq_square)
  also have "\<dots> \<le> 2.9" by (simp add: power_divide)
  finally show ?thesis .
qed

lemma es_spec_15_bounds: "0 < es_spec 15 \<and> es_spec 15 \<le> 1.7714"
proof
  show "0 < es_spec 15" by (simp add: es_spec_def)
  have "es_spec 15 = 0.6108 * exp (17.27 * 15 / (15 + 237.3))" by (simp add: es_spec_def)
  also have "\<dots> \<le> 0.6108 * 2.9" by (intro mult_left_mono exp_scenario_bound) simp
  also have "\<dots> \<le> (1.7714 :: real)" by simp
  finally show "es_spec 15 \<le> 1.7714" .
qed

lemma s_spec_15_bounds: "0 < s_spec 15 \<and> s_spec 15 \<le> 0.11404"
proof -
  from es_spec_15_bounds have e: "0 < es_spec 15" "es_spec 15 \<le> 1.7714" by simp_all
  have s: "s_spec 15 = es_spec 15 * (4098 / (15 + 237.3)\<^sup>2)" by (simp add: s_spec_def)
  have "es_spec 15 * (4098 / (15 + 237.3)\<^sup>2) \<le> 1.7714 * (4098 / (15 + 237.3)\<^sup>2)"
    using e by (intro mult_right_mono) simp_all
  also have "\<dots> \<le> (0.11404 :: real)" by (simp add: power2_eq_square)
  finally have "s_spec 15 \<le> 0.11404" unfolding s .
  moreover have "0 < s_spec 15" unfolding s using e by simp
  ultimately show ?thesis by simp
qed

lemma lambda_spec_15: "lambda_spec 15 = 2.465585"
  by (simp add: lambda_spec_def)

lemma gamma_spec_scenario_bounds:
  "0.0669 \<le> gamma_spec 15 101.3 \<and> gamma_spec 15 101.3 \<le> 0.067"
  by (simp add: gamma_spec_def lambda_spec_15)

lemma makkink_spec_scenario:
  "0 < makkink_spec 15 8 101.3 \<and> makkink_spec 15 8 101.3 < 1.5"
proof -
  define s where "s = s_spec 15"
  define g where "g = gamma_spec 15 101.3"
  have s: "0 < s" "s \<le> 0.11404" using s_spec_15_bounds by (simp_all add: s_def)
  have g: "0.0669 \<le> g" "g \<le> 0.067" using gamma_spec_scenario_bounds by (simp_all add: g_def)
  let ?x = "(0.65 * s * 8) / (2.465585 * (s + g))"
  have den: "0 < 2.465585 * (s + g)" using s g by simp
  have pos: "0 < ?x" using s den by (intro divide_pos_pos) simp_all
  have "0.65 * s * 8 < 1.5 * (2.465585 * (s + g))" using s g by simp
  then have lt: "?x < 1.5" using den by (simp add: pos_divide_less_eq)
  have "makkink_spec 15 8 101.3 = max 0 ?x"
    by (simp add: makkink_spec_def lambda_spec_15 s_def g_def)
  with pos lt show ?thesis by simp
qed

lemma penman_monteith_spec_scenario:
  "0 < penman_monteith_spec 15 70 3 10 1 101.3 \<and> penman_monteith_spec 15 70 3 10 1 101.3 < 2"
proof -
  define s where "s = s_spec 15"
  define g where "g = gamma_spec 15 101.3"
  define e where "e = es_spec 15"
  define u where "u = u2_spec 3"
  define p where "p = g * u"
  define q where "q = p * e"
  have s: "0 < s" "s \<le> 0.11404" using s_spec_15_bounds by (simp_all add: s_def)
  have g: "0.0669 \<le> g" "g \<le> 0.067" using gamma_spec_scenario_bounds by (simp_all add: g_def)
  have e: "0 < e" "e \<le> 1.7714" using es_spec_15_bounds by (simp_all add: e_def)
  have u: "1.826 \<le> u" "u \<le> 2.922" using u2_spec_3_bounds by (simp_all add: u_def)
  have p_lo: "0.0669 * 1.826 \<le> p" unfolding p_def using g u by (intro mult_mono) simp_all
  have p_hi: "p \<le> 0.067 * 2.922" unfolding p_def using g u by (intro mult_mono) simp_all
  have p_pos: "0 < p" using p_lo by simp
  have q_pos: "0 < q" unfolding q_def using p_pos e by simp
  have q_hi: "q \<le> (0.067 * 2.922) * 1.7714" unfolding q_def using p_hi p_pos e
    by (intro mult_mono) simp_all
  let ?N = "0.408 * s * (10 - 1) + g * (37 / (15 + 273)) * u * (e - ea_spec 15 70)"
  let ?D = "s + g * (1 + 0.34 * u)"
  have N: "?N = 3.672 * s + (11.1 / 288) * q"
    by (simp add: q_def p_def ea_spec_def e_def algebra_simps)
  have D: "?D = s + g + 0.34 * p"
    by (simp add: p_def algebra_simps)
  have Dpos: "0 < ?D" unfolding D using s g p_pos by simp
  have Npos: "0 < ?N" unfolding N using s q_pos by simp
  have "?N < 2 * ?D" unfolding N D using s g p_lo q_hi by simp
  then have lt: "?N / ?D < 2" using Dpos by (simp add: pos_divide_less_eq)
  have pos: "0 < ?N / ?D" using Npos Dpos by (rule divide_pos_pos)
  have "penman_monteith_spec 15 70 3 10 1 101.3 = max 0 (?N / ?D)"
    by (simp add: penman_monteith_spec_def s_def g_def e_def u_def)
  with pos lt show ?thesis by simp
qed

lemma scenario_divisors:
  "(15::real) + 237.3 \<noteq> 0" "lambda_spec 15 \<noteq> 0" "(15::real) + 273 \<noteq> 0"
  "s_spec 15 + gamma_spec 15 101.3 \<noteq> 0"
  "s_spec 15 + gamma_spec 15 101.3 * (1 + 0.34 * u2_spec 3) \<noteq> 0"
proof -
  show "(15::real) + 237.3 \<noteq> 0" "(15::real) + 273 \<noteq> 0" by simp_all
  show "lambda_spec 15 \<noteq> 0" by (simp add: lambda_spec_15)
  have s: "0 < s_spec 15" using s_spec_15_bounds by simp
  have g: "0 < gamma_spec 15 101.3" using gamma_spec_scenario_bounds by simp
  have u: "0 < u2_spec 3" using u2_spec_3_bounds by simp
  from s g show "s_spec 15 + gamma_spec 15 101.3 \<noteq> 0" by simp
  have "0 < gamma_spec 15 101.3 * (1 + 0.34 * u2_spec 3)" using g u by simp
  with s show "s_spec 15 + gamma_spec 15 101.3 * (1 + 0.34 * u2_spec 3) \<noteq> 0" by simp
qed

subsection \<open>The range in which the code computes finite numbers\<close>

lemma exp_nat_le: "exp (real n) \<le> 3 ^ n"
proof -
  have "exp (real n) = exp 1 ^ n"
    using exp_of_nat_mult[of n "1::real"] by simp
  also have "\<dots> \<le> 3 ^ n" by (intro power_mono exp_le) simp
  finally show ?thesis .
qed

lemma exp_arg_bounds:
  assumes "- 230 \<le> (T :: real)"
  shows "- 545 \<le> 17.27 * T / (T + 237.3)" and "17.27 * T / (T + 237.3) \<le> 18"
proof -
  have d: "0 < T + 237.3" using assms by simp
  show "- 545 \<le> 17.27 * T / (T + 237.3)"
    using d assms by (simp add: pos_le_divide_eq)
  show "17.27 * T / (T + 237.3) \<le> 18"
    using d assms by (simp add: pos_divide_le_eq)
qed

lemma exp_in_range:
  assumes "- 230 \<le> (T :: real)"
  shows "exp (17.27 * T / (T + 237.3)) \<le> max_float"
    and "min_subnormal / 2 < exp (17.27 * T / (T + 237.3))"
proof -
  let ?a = "17.27 * T / (T + 237.3)"
  note b = exp_arg_bounds[OF assms]
  have "exp ?a \<le> exp (real 18)" using b(2) by simp
  also have "\<dots> \<le> 3 ^ 18" by (rule exp_nat_le)
  also have "\<dots> \<le> max_float" by (simp add: max_float_def)
  finally show "exp ?a \<le> max_float" .
  have "exp (real 545) \<le> 3 ^ 545" by (rule exp_nat_le)
  also have "\<dots> < (2 :: real) ^ 1075" by simp
  finally have "exp (545 :: real) < 2 ^ 1075" by simp
  then have "1 / 2 ^ 1075 < 1 / exp (545 :: real)"
    by (intro divide_strict_left_mono) simp_all
  also have "\<dots> = exp (- 545)" by (simp add: exp_minus divide_simps)
  also have "\<dots> \<le> exp ?a" using b(1) by simp
  finally show "min_subnormal / 2 < exp ?a" by (simp add: min_subnormal_def)
qed

lemma pet_domain:
  assumes "- 230 \<le> T" and "T \<le> 1059"
  shows "T + 237.3 \<noteq> 0" and "0 < lambda_spec T" and "T + 273 \<noteq> 0" and "0 < s_spec T"
    and "0 \<le> P \<Longrightarrow> 0 \<le> gamma_spec T P"
    and "0 \<le> w \<Longrightarrow> 0 \<le> u2_spec w"
proof -
  show d: "T + 237.3 \<noteq> 0" and "T + 273 \<noteq> 0" using assms by simp_all
  show l: "0 < lambda_spec T" using assms by (simp add: lambda_spec_def)
  have "0 < es_spec T" by (simp add: es_spec_def)
  then show "0 < s_spec T" using d by (simp add: s_spec_def)
  show "0 \<le> gamma_spec T P" if "0 \<le> P"
    using that l by (simp add: gamma_spec_def)
  show "0 \<le> u2_spec w" if "0 \<le> w"
    using that ln_height_bounds by (simp add: u2_spec_def)
qed

lemma makkink_domain:
  assumes "- 230 \<le> T" and "T \<le> 1059" and "0 \<le> P"
  shows "makkink_cell (Fin T) (Fin r) (Fin P) = Fin (makkink_spec T r P)"
proof -
  note d = pet_domain[OF assms(1,2)]
  have "s_spec T + gamma_spec T P \<noteq> 0" using d(4) d(5)[OF assms(3)] by simp
  moreover have "lambda_spec T \<noteq> 0" using d(2) by simp
  ultimately show ?thesis
    using d(1) exp_in_range[OF assms(1)] by (intro makkink_cell_finite)
qed

lemma penman_monteith_domain:
  assumes "- 230 \<le> T" and "T \<le> 1059" and "0 \<le> P" and "0 \<le> w"
  shows "penman_monteith_cell (Fin T) (Fin RH) (Fin w) (Fin n) (Fin g) (Fin P)
           = Fin (penman_monteith_spec T RH w n g P)"
proof -
  note d = pet_domain[OF assms(1,2)]
  have "0 \<le> gamma_spec T P * (1 + 0.34 * u2_spec w)"
    using d(5)[OF assms(3)] d(6)[OF assms(4)] by simp
  then have "s_spec T + gamma_spec T P * (1 + 0.34 * u2_spec w) \<noteq> 0" using d(4) by simp
  moreover have "lambda_spec T \<noteq> 0" using d(2) by simp
  ultimately show ?thesis
    using d(1,3) exp_in_range[OF assms(1)] by (intro penman_monteith_cell_finite)
qed

lemma spec_nonneg: "0 \<le> makkink_spec T r P" "0 \<le> penman_monteith_spec T RH w n g P"
  by (simp_all add: makkink_spec_def penman_monteith_spec_def)

subsection \<open>The exponential overflows below -237.3\<close>

lemma exp_overflow_at_minus_240: "max_float < exp (17.27 * (- 240) / (- 240 + 237.3) :: real)"
proof -
  have "max_float < (2 :: real) ^ 1535" by (simp add: max_float_def)
  also have "\<dots> \<le> exp 1 ^ 1535"
    using exp_ge_add_one_self[of "1::real"] by (intro power_mono) simp_all
  also have "\<dots> = exp (real 1535)"
    using exp_of_nat_mult[of 1535 "1::real"] by simp
  also have "\<dots> \<le> exp (17.27 * (- 240) / (- 240 + 237.3) :: real)" by simp
  finally show ?thesis .
qed

lemma makkink_cell_minus_240: "makkink_cell (Fin (- 240)) (Fin 8) (Fin 101.3) = NaN"
proof -
  have "Fin 17.27 * Fin (- 240) / (Fin (- 240) + Fin 237.3) = Fin (17.27 * (- 240) / (- 240 + 237.3))"
    by simp
  then have e: "np_exp (Fin 17.27 * Fin (- 240) / (Fin (- 240) + Fin 237.3)) = PInf"
    using exp_overflow_at_minus_240 by (simp only: np_exp.simps if_True)
  show ?thesis
    unfolding makkink_cell_def Let_def e by (simp add: minus_fl_def)
qed

lemma penman_monteith_cell_minus_240:
  "penman_monteith_cell (Fin (- 240)) (Fin 70) (Fin 3) (Fin 10) g (Fin 101.3) = NaN"
proof -
  have "Fin 17.27 * Fin (- 240) / (Fin (- 240) + Fin 237.3) = Fin (17.27 * (- 240) / (- 240 + 237.3))"
    by simp
  then have e: "np_exp (Fin 17.27 * Fin (- 240) / (Fin (- 240) + Fin 237.3)) = PInf"
    using exp_overflow_at_minus_240 by (simp only: np_exp.simps if_True)
  show ?thesis
    unfolding penman_monteith_cell_def Let_def e by (simp add: minus_fl_def fl_nan_absorbs)
qed

subsection \<open>The example runs\<close>

lemma example_daylight_factors:
  "get_daylight_factors example_env example_times ''Europe/Copenhagen'' lat lng =
     Inr [(f64 (decimal_hour 2 25 + 2), f64 (decimal_hour 19 55 + 2)),
          (f64 (decimal_hour 2 25 + 2), f64 (decimal_hour 19 55 + 2))]"
  by (simp add: get_daylight_factors_def example_env_def example_times_def bind_err_def)


lemma example_window:
  "f64 (decimal_hour 2 25 + 2) \<le> decimal_hour 12 0"
  "decimal_hour 12 0 < f64 (decimal_hour 19 55 + 2)"
  "\<not> decimal_hour 23 0 < f64 (decimal_hour 19 55 + 2)"
proof -
  have n: "decimal_hour 12 0 = 12" "decimal_hour 23 0 = 23"
    using decimal_hour_whole[of 12] decimal_hour_whole[of 23] by simp_all
  have "f64 (decimal_hour 2 25 + 2) \<le> (real 2 + real 25 / 60 + 2) * (1 + 1 / 2 ^ 53) ^ 3"
    by (rule daylight_sum_bounds) simp
  also have "\<dots> \<le> 12" by (simp add: power3_eq_cube)
  finally show "f64 (decimal_hour 2 25 + 2) \<le> decimal_hour 12 0" by (simp add: n)
  have lo: "(real 19 + real 55 / 60 + 2) * (1 - 1 / 2 ^ 53) ^ 3 \<le> f64 (decimal_hour 19 55 + 2)"
    by (rule daylight_sum_bounds) simp
  have "(12 :: real) < (real 19 + real 55 / 60 + 2) * (1 - 1 / 2 ^ 53) ^ 3"
    by (simp add: power3_eq_cube)
  with lo show "decimal_hour 12 0 < f64 (decimal_hour 19 55 + 2)" by (simp add: n)
  have "f64 (decimal_hour 19 55 + 2) \<le> (real 19 + real 55 / 60 + 2) * (1 + 1 / 2 ^ 53) ^ 3"
    by (rule daylight_sum_bounds) simp
  also have "\<dots> \<le> 23" by (simp add: power3_eq_cube)
  finally show "\<not> decimal_hour 23 0 < f64 (decimal_hour 19 55 + 2)" by (simp add: n)
qed


lemma scenario_run:
  "\<exists>pm h'. calculate_penman_monteith example_env scenario_store 0 1 2 3 4 example_times = (Inr pm, h')
      \<and> length pm = 2"
  unfolding calculate_penman_monteith_def deepcopy_def example_daylight_factors
  by (simp add: scenario_store_def example_times_def enumerate_eq_zip upt_rec example_window)


subsection \<open>Values of the two derived fields\<close>

lemma penman_monteith_cells:
  assumes "calculate_penman_monteith env h temp rh ws rn pres ts = (Inr pm, h')"
  shows "\<exists>zs. pm = map (\<lambda>(t, r, w, n, g, p). \<lambda>c.
                  penman_monteith_cell (t c) (r c) (w c) (n c) (g c) (p c)) zs"
  using assms
  by (auto simp: calculate_penman_monteith_def deepcopy_def
           split: sum.splits prod.splits option.splits)

lemma penman_monteith_cell_nonneg:
  "penman_monteith_cell t r w n g p = NaN \<or> fle (Fin 0) (penman_monteith_cell t r w n g p)"
  unfolding penman_monteith_cell_def Let_def by (rule clip_min0_nonneg)

lemma makkink_cell_nonneg:
  "makkink_cell t r p = NaN \<or> fle (Fin 0) (makkink_cell t r p)"
  unfolding makkink_cell_def Let_def by (rule clip_min0_nonneg)

lemma nth_penman_monteith:
  assumes run: "calculate_penman_monteith env h temp rh ws rn pres ts = (Inr pm, h')"
    and addr: "temp < length h" "rh < length h" "ws < length h" "rn < length h" "pres < length h"
    and i: "i < length pm"
  shows "pm ! i = (\<lambda>c. penman_monteith_cell ((h ! temp ! i) c) ((h ! rh ! i) c) ((h ! ws ! i) c)
                          ((h ! rn ! i) c) ((h' ! length h ! i) c) ((h ! pres ! i) c))"
proof -
  from calculate_penman_monteith_frame[OF run] addr
  have same: "h' ! temp = h ! temp" "h' ! rh = h ! rh" "h' ! ws = h ! ws" "h' ! rn = h ! rn"
    "h' ! pres = h ! pres"
    by simp_all
  from calculate_penman_monteith_Inr[OF run addr(4)]
  have pm: "pm = map (\<lambda>(t, r, w, n, g, p). \<lambda>c.
                  penman_monteith_cell (t c) (r c) (w c) (n c) (g c) (p c))
             (zip (h ! temp) (zip (h ! rh) (zip (h ! ws)
               (zip (h ! rn) (zip (h' ! length h) (h ! pres))))))"
    unfolding same by blast
  from i show ?thesis by (subst pm, subst (asm) pm) simp
qed

lemma penman_monteith_value:
  assumes run: "calculate_penman_monteith env h temp rh ws rn pres ts = (Inr pm, h')"
    and addr: "temp < length h" "rh < length h" "ws < length h" "rn < length h" "pres < length h"
    and i: "i < length pm"
    and vals: "(h ! temp ! i) c = Fin T" "(h ! rh ! i) c = Fin RH" "(h ! ws ! i) c = Fin w"
      "(h ! rn ! i) c = Fin n" "(h ! pres ! i) c = Fin P" "(h' ! length h ! i) c = Fin g"
    and dom: "- 230 \<le> T" "T \<le> 1059" "0 \<le> P" "0 \<le> w"
  shows "(pm ! i) c = Fin (penman_monteith_spec T RH w n g P)"
  unfolding nth_penman_monteith[OF run addr i] vals
  using dom by (rule penman_monteith_domain)

lemma makkink_value:
  assumes i: "i < length (calculate_makkink temp rs pres)"
    and vals: "(temp ! i) c = Fin T" "(rs ! i) c = Fin r" "(pres ! i) c = Fin P"
    and dom: "- 230 \<le> T" "T \<le> 1059" "0 \<le> P"
  shows "(calculate_makkink temp rs pres ! i) c = Fin (makkink_spec T r P)"
  unfolding nth_calculate_makkink(4)[OF i] vals
  using dom by (rule makkink_domain)

lemma soil_heat_flux_value:
  assumes run: "calculate_penman_monteith env h temp rh ws rn pres ts = (Inr pm, h')"
    and rn: "rn < length h"
    and dfs: "get_daylight_factors env ts ''Europe/Copenhagen'' 55.686 12.570 = Inr dfs"
    and i: "i < length ts"
  shows "h' ! length h ! i =
           (\<lambda>c. Fin (if fst (dfs ! i) \<le> decimal_hour (hour (ts ! i)) (minute (ts ! i))
                          \<and> decimal_hour (hour (ts ! i)) (minute (ts ! i)) < snd (dfs ! i)
                       then 0.1 else 0.5) * (h ! rn ! i) c)"
  using calculate_penman_monteith_Inr[OF run rn] dfs i by auto

lemma scenario_makkink:
  "length (calculate_makkink [uniform (Fin 15)] [uniform (Fin 8)] [uniform (Fin 101.3)]) = 1"
  "(calculate_makkink [uniform (Fin 15)] [uniform (Fin 8)] [uniform (Fin 101.3)] ! 0) c
     = Fin (makkink_spec 15 8 101.3)"
proof -
  show l: "length (calculate_makkink [uniform (Fin 15)] [uniform (Fin 8)] [uniform (Fin 101.3)]) = 1"
    by (simp add: calculate_makkink_def)
  then have i: "0 < length (calculate_makkink [uniform (Fin 15)] [uniform (Fin 8)] [uniform (Fin 101.3)])"
    by simp
  show "(calculate_makkink [uniform (Fin 15)] [uniform (Fin 8)] [uniform (Fin 101.3)] ! 0) c
     = Fin (makkink_spec 15 8 101.3)"
    by (rule makkink_value[OF i]) (simp_all add: uniform_def)
qed

lemma soil_heat_flux_finite:
  assumes run: "calculate_penman_monteith env h temp rh ws rn pres ts = (Inr pm, h')"
    and rn: "rn < length h"
    and i: "i < length (h ! rn)"
    and n: "(h ! rn ! i) c = Fin n"
  shows "\<exists>g. (h' ! length h ! i) c = Fin g"
proof -
  from calculate_penman_monteith_Inr[OF run rn] obtain dfs where
    late: "\<forall>i. length ts \<le> i \<and> i < length (h ! rn) \<longrightarrow> h' ! length h ! i = h ! rn ! i"
    and early: "\<forall>i < length ts. h' ! length h ! i =
         (\<lambda>c. Fin (if fst (dfs ! i) \<le> decimal_hour (hour (ts ! i)) (minute (ts ! i))
                          \<and> decimal_hour (hour (ts ! i)) (minute (ts ! i)) < snd (dfs ! i)
                     then 0.1 else 0.5) * (h ! rn ! i) c)"
    by blast
  show ?thesis
  proof (cases "i < length ts")
    case True
    with early have "(h' ! length h ! i) c =
        Fin (if fst (dfs ! i) \<le> decimal_hour (hour (ts ! i)) (minute (ts ! i))
                          \<and> decimal_hour (hour (ts ! i)) (minute (ts ! i)) < snd (dfs ! i)
                     then 0.1 else 0.5) * (h ! rn ! i) c"
      by simp
    then show ?thesis by (simp add: n)
  next
    case False
    with late i have "h' ! length h ! i = h ! rn ! i" by simp
    then show ?thesis by (simp add: n)
  qed
qed

lemma length_penman_monteith:
  assumes run: "calculate_penman_monteith env h temp rh ws rn pres ts = (Inr pm, h')"
    and addr: "temp < length h" "rh < length h" "ws < length h" "rn < length h" "pres < length h"
    and i: "i < length pm"
  shows "i < length (h ! temp)" "i < length (h ! rh)" "i < length (h ! ws)"
    "i < length (h ! rn)" "i < length (h ! pres)"
proof -
  from calculate_penman_monteith_frame[OF run] addr
  have same: "h' ! temp = h ! temp" "h' ! rh = h ! rh" "h' ! ws = h ! ws" "h' ! rn = h ! rn"
    "h' ! pres = h ! pres"
    by simp_all
  from calculate_penman_monteith_Inr[OF run addr(4)]
  have pm: "pm = map (\<lambda>(t, r, w, n, g, p). \<lambda>c.
                  penman_monteith_cell (t c) (r c) (w c) (n c) (g c) (p c))
             (zip (h ! temp) (zip (h ! rh) (zip (h ! ws)
               (zip (h ! rn) (zip (h' ! length h) (h ! pres))))))"
    unfolding same by blast
  from i show "i < length (h ! temp)" "i < length (h ! rh)" "i < length (h ! ws)"
    "i < length (h ! rn)" "i < length (h ! pres)"
    by (subst (asm) pm, simp)+
qed

subsection \<open>The derived fields are never negative\<close>

text \<open>
  C3, amended. For every cell and timestep of the fields returned by \<open>calculate_makkink\<close>
  and \<open>calculate_penman_monteith\<close>: whatever the inputs, the value is not-a-number or at
  least 0; if an input sample of the cell is not-a-number, the value is not-a-number; and
  if the input samples are finite, of magnitude at most \<open>10\<^sup>1\<^sup>0\<^sup>0\<close>, with a temperature from
  -230 to 1059 and a pressure of at least 0 (and, for Penman-Monteith, a wind speed of at
  least 0), the value is a finite number that is at least 0.

  On that range the divisors \<open>temp + 237.3\<close>, \<open>\<lambda>\<close>, \<open>temp + 273\<close> and the divisor of the
  equation are strictly positive and the exponential stays inside the range of float64;
  the bound on the magnitudes keeps every intermediate result of the code below the
  largest float64, so that the code computes, up to rounding, what the model computes.
\<close>

theorem pet_fields_nonneg_or_nan:
  "(\<forall>i < length (calculate_makkink mtemp rs mpres). \<forall>c.
       ((calculate_makkink mtemp rs mpres ! i) c = NaN \<or>
        fle (Fin 0) ((calculate_makkink mtemp rs mpres ! i) c))
     \<and> ((mtemp ! i) c = NaN \<or> (rs ! i) c = NaN \<or> (mpres ! i) c = NaN \<longrightarrow>
          (calculate_makkink mtemp rs mpres ! i) c = NaN)
     \<and> (\<forall>T r P. (mtemp ! i) c = Fin T \<and> (rs ! i) c = Fin r \<and> (mpres ! i) c = Fin P
                  \<and> - 230 \<le> T \<and> T \<le> 1059 \<and> 0 \<le> P
                  \<and> \<bar>r\<bar> \<le> 10 ^ 100 \<and> P \<le> 10 ^ 100 \<longrightarrow>
            (\<exists>v. (calculate_makkink mtemp rs mpres ! i) c = Fin v \<and> 0 \<le> v)))
   \<and> (calculate_penman_monteith env h temp rh ws rn pres ts = (Inr pm, h') \<longrightarrow>
        (\<forall>i < length pm. \<forall>c. (pm ! i) c = NaN \<or> fle (Fin 0) ((pm ! i) c))
      \<and> (temp < length h \<and> rh < length h \<and> ws < length h \<and> rn < length h \<and> pres < length h \<longrightarrow>
           (\<forall>i < length pm. \<forall>c.
               ((h ! temp ! i) c = NaN \<or> (h ! rh ! i) c = NaN \<or> (h ! ws ! i) c = NaN \<or>
                (h ! rn ! i) c = NaN \<or> (h ! pres ! i) c = NaN \<longrightarrow> (pm ! i) c = NaN)
             \<and> (\<forall>T RH w n P. (h ! temp ! i) c = Fin T \<and> (h ! rh ! i) c = Fin RH
                      \<and> (h ! ws ! i) c = Fin w \<and> (h ! rn ! i) c = Fin n \<and> (h ! pres ! i) c = Fin P
                      \<and> - 230 \<le> T \<and> T \<le> 1059 \<and> 0 \<le> P \<and> 0 \<le> w
                      \<and> \<bar>RH\<bar> \<le> 10 ^ 100 \<and> w \<le> 10 ^ 100 \<and> \<bar>n\<bar> \<le> 10 ^ 100 \<and> P \<le> 10 ^ 100 \<longrightarrow>
                    (\<exists>v. (pm ! i) c = Fin v \<and> 0 \<le> v)))))"
proof (intro conjI allI impI)
  fix i c assume "i < length (calculate_makkink mtemp rs mpres)"
  then show "(calculate_makkink mtemp rs mpres ! i) c = NaN \<or>
       fle (Fin 0) ((calculate_makkink mtemp rs mpres ! i) c)"
    by (simp only: nth_calculate_makkink(4) makkink_cell_nonneg)
next
  fix i c
  assume i: "i < length (calculate_makkink mtemp rs mpres)"
    and "(mtemp ! i) c = NaN \<or> (rs ! i) c = NaN \<or> (mpres ! i) c = NaN"
  then show "(calculate_makkink mtemp rs mpres ! i) c = NaN"
    unfolding nth_calculate_makkink(4)[OF i] by (auto simp: makkink_cell_nan)
next
  fix i c T r P
  assume i: "i < length (calculate_makkink mtemp rs mpres)"
    and v: "(mtemp ! i) c = Fin T \<and> (rs ! i) c = Fin r \<and> (mpres ! i) c = Fin P
              \<and> - 230 \<le> T \<and> T \<le> 1059 \<and> 0 \<le> P
              \<and> \<bar>r\<bar> \<le> 10 ^ 100 \<and> P \<le> 10 ^ 100"
  then have "(calculate_makkink mtemp rs mpres ! i) c = Fin (makkink_spec T r P)"
    by (intro makkink_value) simp_all
  then show "\<exists>v. (calculate_makkink mtemp rs mpres ! i) c = Fin v \<and> 0 \<le> v"
    using spec_nonneg(1) by blast
next
  fix i c
  assume run: "calculate_penman_monteith env h temp rh ws rn pres ts = (Inr pm, h')"
    and i: "i < length pm"
  from penman_monteith_cells[OF run] obtain zs where
    pm: "pm = map (\<lambda>(t, r, w, n, g, p). \<lambda>c.
                  penman_monteith_cell (t c) (r c) (w c) (n c) (g c) (p c)) zs"
    by blast
  from i have "i < length zs" by (simp add: pm)
  then have "pm ! i = (\<lambda>(t, r, w, n, g, p). \<lambda>c.
                  penman_monteith_cell (t c) (r c) (w c) (n c) (g c) (p c)) (zs ! i)"
    by (simp add: pm)
  then show "(pm ! i) c = NaN \<or> fle (Fin 0) ((pm ! i) c)"
    by (simp add: split_def penman_monteith_cell_nonneg)
next
  fix i c
  assume run: "calculate_penman_monteith env h temp rh ws rn pres ts = (Inr pm, h')"
    and addr: "temp < length h \<and> rh < length h \<and> ws < length h \<and> rn < length h \<and> pres < length h"
    and i: "i < length pm"
    and nan: "(h ! temp ! i) c = NaN \<or> (h ! rh ! i) c = NaN \<or> (h ! ws ! i) c = NaN \<or>
                (h ! rn ! i) c = NaN \<or> (h ! pres ! i) c = NaN"
  from addr have a: "temp < length h" "rh < length h" "ws < length h" "rn < length h"
    "pres < length h"
    by simp_all
  have "pm ! i = (\<lambda>c. penman_monteith_cell ((h ! temp ! i) c) ((h ! rh ! i) c) ((h ! ws ! i) c)
                          ((h ! rn ! i) c) ((h' ! length h ! i) c) ((h ! pres ! i) c))"
    using run a i by (rule nth_penman_monteith)
  with nan show "(pm ! i) c = NaN"
    by (auto simp: penman_monteith_cell_nan)
next
  fix i c T RH w n P
  assume run: "calculate_penman_monteith env h temp rh ws rn pres ts = (Inr pm, h')"
    and addr: "temp < length h \<and> rh < length h \<and> ws < length h \<and> rn < length h \<and> pres < length h"
    and i: "i < length pm"
    and v: "(h ! temp ! i) c = Fin T \<and> (h ! rh ! i) c = Fin RH
                      \<and> (h ! ws ! i) c = Fin w \<and> (h ! rn ! i) c = Fin n \<and> (h ! pres ! i) c = Fin P
                      \<and> - 230 \<le> T \<and> T \<le> 1059 \<and> 0 \<le> P \<and> 0 \<le> w
                      \<and> \<bar>RH\<bar> \<le> 10 ^ 100 \<and> w \<le> 10 ^ 100 \<and> \<bar>n\<bar> \<le> 10 ^ 100 \<and> P \<le> 10 ^ 100"
  from addr have a: "temp < length h" "rh < length h" "ws < length h" "rn < length h"
    "pres < length h"
    by simp_all
  from v have vals: "(h ! temp ! i) c = Fin T" "(h ! rh ! i) c = Fin RH" "(h ! ws ! i) c = Fin w"
    "(h ! rn ! i) c = Fin n" "(h ! pres ! i) c = Fin P"
    and dom: "- 230 \<le> T" "T \<le> 1059" "0 \<le> P" "0 \<le> w"
    by simp_all
  have "i < length (h ! rn)"
    using run a i by (rule length_penman_monteith(4))
  with run a(4) vals(4) obtain g where g: "(h' ! length h ! i) c = Fin g"
    using soil_heat_flux_finite by blast
  have "(pm ! i) c = Fin (penman_monteith_spec T RH w n g P)"
    using run a i vals g dom by (rule penman_monteith_value)
  then show "\<exists>v. (pm ! i) c = Fin v \<and> 0 \<le> v"
    using spec_nonneg(2) by blast
qed

text \<open>
  C3 as stated fails at the temperature -237.3: the divisor \<open>temp + 237.3\<close> is zero, the
  slope of the saturation curve is 0/0, and the Makkink value is not-a-number, which is
  not at least 0.
\<close>

theorem makkink_nan_at_minus_237_3:
  "\<not> fle (Fin 0)
      ((calculate_makkink [uniform (Fin (- 237.3))] [uniform (Fin 8)] [uniform (Fin 101.3)] ! 0) (0, 0))"
  by (simp add: calculate_makkink_def uniform_def makkink_cell_def Let_def minus_fl_def)

theorem pet_fields_nonneg_or_nan_witness:
  "(\<exists>v. (calculate_makkink [uniform (Fin 15)] [uniform (Fin 8)] [uniform (Fin 101.3)] ! 0) (0, 0) = Fin v
         \<and> 0 \<le> v)
   \<and> (calculate_makkink [uniform NaN] [uniform (Fin 8)] [uniform (Fin 101.3)] ! 0) (0, 0) = NaN
   \<and> (\<exists>pm h'. calculate_penman_monteith example_env scenario_store 0 1 2 3 4 example_times = (Inr pm, h')
         \<and> (\<exists>v. (pm ! 0) (0, 0) = Fin v \<and> 0 \<le> v))"
proof -
  from scenario_run obtain pm h' where
    run: "calculate_penman_monteith example_env scenario_store 0 1 2 3 4 example_times = (Inr pm, h')"
    and l: "length pm = 2"
    by blast
  note t1 = pet_fields_nonneg_or_nan[of "[uniform (Fin 15)]" "[uniform (Fin 8)]" "[uniform (Fin 101.3)]"
      example_env scenario_store 0 1 2 3 4 example_times pm h']
  note t2 = pet_fields_nonneg_or_nan[of "[uniform NaN]" "[uniform (Fin 8)]" "[uniform (Fin 101.3)]"
      example_env scenario_store 0 1 2 3 4 example_times pm h']
  have i1: "0 < length (calculate_makkink [uniform (Fin 15)] [uniform (Fin 8)] [uniform (Fin 101.3)])"
    by (simp add: calculate_makkink_def)
  have v1: "([uniform (Fin 15)] ! 0) (0, 0) = Fin 15 \<and> ([uniform (Fin 8)] ! 0) (0, 0) = Fin 8
      \<and> ([uniform (Fin 101.3)] ! 0) (0, 0) = Fin 101.3 \<and> - 230 \<le> (15 :: real) \<and> (15 :: real) \<le> 1059
      \<and> (0 :: real) \<le> 101.3 \<and> \<bar>8 :: real\<bar> \<le> 10 ^ 100 \<and> (101.3 :: real) \<le> 10 ^ 100"
    by (simp add: uniform_def)
  from t1 i1 v1
  have m: "\<exists>v. (calculate_makkink [uniform (Fin 15)] [uniform (Fin 8)] [uniform (Fin 101.3)] ! 0) (0, 0) = Fin v
         \<and> 0 \<le> v"
    by blast
  have i2: "0 < length (calculate_makkink [uniform NaN] [uniform (Fin 8)] [uniform (Fin 101.3)])"
    by (simp add: calculate_makkink_def)
  have v2: "([uniform NaN] ! 0) (0, 0) = NaN" by (simp add: uniform_def)
  from t2 i2 v2
  have n: "(calculate_makkink [uniform NaN] [uniform (Fin 8)] [uniform (Fin 101.3)] ! 0) (0, 0) = NaN"
    by blast
  have a: "0 < length scenario_store \<and> 1 < length scenario_store \<and> 2 < length scenario_store
      \<and> 3 < length scenario_store \<and> 4 < length scenario_store"
    by (simp add: scenario_store_def)
  have i3: "0 < length pm" using l by simp
  have v3: "(scenario_store ! 0 ! 0) (0, 0) = Fin 15 \<and> (scenario_store ! 1 ! 0) (0, 0) = Fin 70
      \<and> (scenario_store ! 2 ! 0) (0, 0) = Fin 3 \<and> (scenario_store ! 3 ! 0) (0, 0) = Fin 10
      \<and> (scenario_store ! 4 ! 0) (0, 0) = Fin 101.3 \<and> - 230 \<le> (15 :: real) \<and> (15 :: real) \<le> 1059
      \<and> (0 :: real) \<le> 101.3 \<and> (0 :: real) \<le> 3
      \<and> \<bar>70 :: real\<bar> \<le> 10 ^ 100 \<and> (3 :: real) \<le> 10 ^ 100 \<and> \<bar>10 :: real\<bar> \<le> 10 ^ 100
      \<and> (101.3 :: real) \<le> 10 ^ 100"
    by (simp add: scenario_store_def uniform_def)
  from t1 run a i3 v3 have "\<exists>v. (pm ! 0) (0, 0) = Fin v \<and> 0 \<le> v"
    by blast
  with m n run show ?thesis by blast
qed

subsection \<open>The Makkink equation\<close>

text \<open>
  C4, amended. For a finite temperature \<open>T\<close> from -230 to 1059, a finite global radiation
  of magnitude at most \<open>10\<^sup>1\<^sup>0\<^sup>0\<close> and a finite pressure from 0 to \<open>10\<^sup>1\<^sup>0\<^sup>0\<close>, the sample
  returned by \<open>calculate_makkink\<close> is the specification's
  \<open>max(0, (0.65 s rs) / (\<lambda> (s + \<gamma>)))\<close>, with \<open>\<lambda>\<close>, \<open>\<gamma>\<close>, \<open>es\<close> and \<open>s\<close> as the specification
  gives them.

  On that range \<open>T + 237.3\<close>, \<open>\<lambda>\<close> and \<open>s + \<gamma>\<close> are strictly positive and the argument of
  the exponential lies between -545 and 15. The bounds on the radiation and the pressure
  play no part in the model, whose arithmetic on finite samples is exact; they keep every
  intermediate result of the code below the largest float64, so that the code computes,
  up to rounding, what the model computes.
\<close>

theorem calculate_makkink_formula:
  assumes "i < length (calculate_makkink temp rs pres)"
    and "(temp ! i) c = Fin T" and "(rs ! i) c = Fin r" and "(pres ! i) c = Fin P"
    and "- 230 \<le> T" and "T \<le> 1059" and "0 \<le> P"
    and "\<bar>r\<bar> \<le> 10 ^ 100" and "P \<le> 10 ^ 100"
  shows "(calculate_makkink temp rs pres ! i) c = Fin (makkink_spec T r P)
         \<and> makkink_spec T r P =
             max 0 ((0.65 * s_spec T * r) / (lambda_spec T * (s_spec T + gamma_spec T P)))
         \<and> lambda_spec T = 2.501 - 0.002361 * T
         \<and> gamma_spec T P = (0.001013 * P) / (0.622 * lambda_spec T)
         \<and> es_spec T = 0.6108 * exp (17.27 * T / (T + 237.3))
         \<and> s_spec T = 4098 * es_spec T / (T + 237.3)\<^sup>2"
  using makkink_value[OF assms(1-7)]
  by (simp add: makkink_spec_def lambda_spec_def gamma_spec_def es_spec_def s_spec_def)

text \<open>
  C4 as stated fails at the temperature -240 (global radiation 8, pressure 101.3): the
  argument of the exponential is about 1535, the exponential overflows to infinity, the
  quotient is infinity by infinity, and the value returned is not-a-number, not the value
  of the formula.
\<close>

theorem makkink_overflow_at_minus_240:
  "(calculate_makkink [uniform (Fin (- 240))] [uniform (Fin 8)] [uniform (Fin 101.3)] ! 0) (0, 0) = NaN
   \<and> (calculate_makkink [uniform (Fin (- 240))] [uniform (Fin 8)] [uniform (Fin 101.3)] ! 0) (0, 0)
       \<noteq> Fin (makkink_spec (- 240) 8 101.3)"
proof -
  have "(calculate_makkink [uniform (Fin (- 240))] [uniform (Fin 8)] [uniform (Fin 101.3)] ! 0) (0, 0)
      = makkink_cell (Fin (- 240)) (Fin 8) (Fin 101.3)"
    by (simp add: calculate_makkink_def uniform_def)
  then show ?thesis by (simp add: makkink_cell_minus_240)
qed

theorem calculate_makkink_formula_witness:
  "(calculate_makkink [uniform (Fin 15)] [uniform (Fin 8)] [uniform (Fin 101.3)] ! 0) (0, 0)
     = Fin (makkink_spec 15 8 101.3)"
proof -
  have i: "0 < length (calculate_makkink [uniform (Fin 15)] [uniform (Fin 8)] [uniform (Fin 101.3)])"
    by (simp add: scenario_makkink(1))
  have v: "([uniform (Fin 15)] ! 0) (0, 0) = Fin 15" "([uniform (Fin 8)] ! 0) (0, 0) = Fin 8"
    "([uniform (Fin 101.3)] ! 0) (0, 0) = Fin 101.3"
    by (simp_all add: uniform_def)
  have d: "- 230 \<le> (15 :: real)" "(15 :: real) \<le> 1059" "(0 :: real) \<le> 101.3"
    "\<bar>8 :: real\<bar> \<le> 10 ^ 100" "(101.3 :: real) \<le> 10 ^ 100"
    by simp_all
  from calculate_makkink_formula[OF i v d] show ?thesis by blast
qed

subsection \<open>The Penman-Monteith equation\<close>

text \<open>
  C5, amended. For a finite temperature \<open>T\<close> from -230 to 1059, a finite pressure and a
  finite wind speed from 0 to \<open>10\<^sup>1\<^sup>0\<^sup>0\<close>, and a finite relative humidity and net radiation of
  magnitude at most \<open>10\<^sup>1\<^sup>0\<^sup>0\<close>, the sample returned by \<open>calculate_penman_monteith\<close> is the
  specification's
  \<open>max(0, [0.408 s (rn - G) + \<gamma> (37 / (T + 273)) u2 (es - ea)] / [s + \<gamma> (1 + 0.34 u2)])\<close>,
  with \<open>ea = (RH / 100) es\<close> and \<open>u2 = (4.87 / ln(67.8 * 10 - 5.42)) ws\<close>, where \<open>G\<close> is the
  sample of the array the function allocates for the soil heat flux (a finite number when
  the net radiation is one).

  On that range \<open>T + 237.3\<close>, \<open>\<lambda>\<close>, \<open>T + 273\<close> and \<open>s + \<gamma> (1 + 0.34 u2)\<close> are strictly positive
  and the argument of the exponential lies between -545 and 15. The bounds on the
  magnitudes play no part in the model, whose arithmetic on finite samples is exact; they
  keep every intermediate result of the code below the largest float64, so that the code
  computes, up to rounding, what the model computes.
\<close>

theorem calculate_penman_monteith_formula:
  assumes "calculate_penman_monteith env h temp rh ws rn pres ts = (Inr pm, h')"
    and "temp < length h" and "rh < length h" and "ws < length h" and "rn < length h"
    and "pres < length h"
    and "i < length pm"
    and "(h ! temp ! i) c = Fin T" and "(h ! rh ! i) c = Fin RH" and "(h ! ws ! i) c = Fin w"
    and "(h ! rn ! i) c = Fin n" and "(h ! pres ! i) c = Fin P"
    and "(h' ! length h ! i) c = Fin G"
    and "- 230 \<le> T" and "T \<le> 1059" and "0 \<le> P" and "0 \<le> w"
    and "\<bar>RH\<bar> \<le> 10 ^ 100" and "w \<le> 10 ^ 100" and "\<bar>n\<bar> \<le> 10 ^ 100" and "P \<le> 10 ^ 100"
  shows "(pm ! i) c = Fin (penman_monteith_spec T RH w n G P)
         \<and> penman_monteith_spec T RH w n G P =
             max 0 ((0.408 * s_spec T * (n - G)
                      + gamma_spec T P * (37 / (T + 273)) * u2_spec w * (es_spec T - ea_spec T RH))
                    / (s_spec T + gamma_spec T P * (1 + 0.34 * u2_spec w)))
         \<and> ea_spec T RH = (RH / 100) * es_spec T
         \<and> u2_spec w = (4.87 / ln (67.8 * 10 - 5.42)) * w"
  using penman_monteith_value[OF assms(1-17)]
  by (simp add: penman_monteith_spec_def ea_spec_def u2_spec_def)

lemma scenario_G:
  assumes "calculate_penman_monteith example_env scenario_store 0 1 2 3 4 example_times = (Inr pm, h')"
  shows "(h' ! 5 ! 0) c = Fin 1" "(h' ! 5 ! 1) c = Fin 5"
proof -
  have rn: "3 < length scenario_store" by (simp add: scenario_store_def)
  have l: "length scenario_store = 5" by (simp add: scenario_store_def)
  have t: "0 < length example_times" "1 < length example_times"
    by (simp_all add: example_times_def)
  from soil_heat_flux_value[OF assms rn example_daylight_factors t(1)]
  show "(h' ! 5 ! 0) c = Fin 1"
    unfolding l by (simp add: example_times_def scenario_store_def uniform_def example_window)
  from soil_heat_flux_value[OF assms rn example_daylight_factors t(2)]
  show "(h' ! 5 ! 1) c = Fin 5"
    unfolding l by (simp add: example_times_def scenario_store_def uniform_def example_window)
qed

text \<open>
  C5 as stated fails at the temperature -240 (relative humidity 70, wind speed 3, net
  radiation 10, pressure 101.3): the exponential overflows to infinity, \<open>es - ea\<close> is
  infinity minus infinity, and the value returned is not-a-number, not the value of the
  formula.
\<close>

theorem penman_monteith_overflow_at_minus_240:
  "\<not> isl (fst (calculate_penman_monteith example_env cold_store 0 1 2 3 4 example_times))
   \<and> (projr (fst (calculate_penman_monteith example_env cold_store 0 1 2 3 4 example_times)) ! 0) (0, 0)
       = NaN
   \<and> (projr (fst (calculate_penman_monteith example_env cold_store 0 1 2 3 4 example_times)) ! 0) (0, 0)
       \<noteq> Fin (penman_monteith_spec (- 240) 70 3 10 1 101.3)"
proof -
  have "\<exists>pm h'. calculate_penman_monteith example_env cold_store 0 1 2 3 4 example_times = (Inr pm, h')
      \<and> length pm = 2"
    unfolding calculate_penman_monteith_def deepcopy_def example_daylight_factors
    by (simp add: cold_store_def example_times_def enumerate_eq_zip upt_rec example_window)
  then obtain pm h' where
    run: "calculate_penman_monteith example_env cold_store 0 1 2 3 4 example_times = (Inr pm, h')"
    and l: "length pm = 2"
    by blast
  have a: "0 < length cold_store" "1 < length cold_store" "2 < length cold_store"
    "3 < length cold_store" "4 < length cold_store"
    by (simp_all add: cold_store_def)
  have i: "0 < length pm" using l by simp
  have "(pm ! 0) (0, 0) = penman_monteith_cell ((cold_store ! 0 ! 0) (0, 0)) ((cold_store ! 1 ! 0) (0, 0))
      ((cold_store ! 2 ! 0) (0, 0)) ((cold_store ! 3 ! 0) (0, 0))
      ((h' ! length cold_store ! 0) (0, 0)) ((cold_store ! 4 ! 0) (0, 0))"
    unfolding nth_penman_monteith[OF run a i] by (rule refl)
  also have "\<dots> = penman_monteith_cell (Fin (- 240)) (Fin 70) (Fin 3) (Fin 10)
      ((h' ! length cold_store ! 0) (0, 0)) (Fin 101.3)"
    by (simp add: cold_store_def uniform_def)
  also have "\<dots> = NaN" by (rule penman_monteith_cell_minus_240)
  finally have "(pm ! 0) (0, 0) = NaN" .
  with run show ?thesis by simp
qed

theorem calculate_penman_monteith_formula_witness:
  "\<exists>pm h'. calculate_penman_monteith example_env scenario_store 0 1 2 3 4 example_times = (Inr pm, h')
      \<and> (pm ! 0) (0, 0) = Fin (penman_monteith_spec 15 70 3 10 1 101.3)"
proof -
  from scenario_run obtain pm h' where
    run: "calculate_penman_monteith example_env scenario_store 0 1 2 3 4 example_times = (Inr pm, h')"
    and l: "length pm = 2"
    by blast
  have a: "0 < length scenario_store" "1 < length scenario_store" "2 < length scenario_store"
    "3 < length scenario_store" "4 < length scenario_store"
    by (simp_all add: scenario_store_def)
  have i: "0 < length pm" using l by simp
  have v: "(scenario_store ! 0 ! 0) (0, 0) = Fin 15" "(scenario_store ! 1 ! 0) (0, 0) = Fin 70"
    "(scenario_store ! 2 ! 0) (0, 0) = Fin 3" "(scenario_store ! 3 ! 0) (0, 0) = Fin 10"
    "(scenario_store ! 4 ! 0) (0, 0) = Fin 101.3"
    by (simp_all add: scenario_store_def uniform_def)
  have l5: "length scenario_store = 5" by (simp add: scenario_store_def)
  have g: "(h' ! length scenario_store ! 0) (0, 0) = Fin 1"
    unfolding l5 by (rule scenario_G(1)[OF run])
  have d: "- 230 \<le> (15 :: real)" "(15 :: real) \<le> 1059" "(0 :: real) \<le> 101.3" "(0 :: real) \<le> 3"
    "\<bar>70 :: real\<bar> \<le> 10 ^ 100" "(3 :: real) \<le> 10 ^ 100" "\<bar>10 :: real\<bar> \<le> 10 ^ 100"
    "(101.3 :: real) \<le> 10 ^ 100"
    by simp_all
  from calculate_penman_monteith_formula[OF run a i v g d]
  have "(pm ! 0) (0, 0) = Fin (penman_monteith_spec 15 70 3 10 1 101.3)" by blast
  with run show ?thesis by blast
qed

subsection \<open>The soil heat flux\<close>



subsection \<open>The daylight-saving offset\<close>

text \<open>
  C8. When \<open>get_daylight_factors\<close> returns, the timezone is known, it returns one pair per
  timestamp, and the pair of timestamp \<open>i\<close> is the pair of floats
  (sunrise.hour + sunrise.minute/60 + offset, sunset.hour + sunset.minute/60 + offset) for
  the sunrise and sunset looked up for its date, where the offset is 1 if the timezone's
  daylight-saving difference at the timestamp is zero (standard time) and 2 otherwise.
  Each float lies within three roundings of the sum over the real numbers.
\<close>

theorem daylight_saving_offset:
  assumes "get_daylight_factors env ts tz lat lng = Inr dfs"
  shows "\<exists>tzinfo. pytz_timezone env tz = Some tzinfo \<and> length dfs = length ts \<and>
   (\<forall>i < length ts. \<exists>r_sunrise r_sunset dst sunrise sunset.
       requests_get env lat lng (date (ts ! i)) = Some (r_sunrise, r_sunset) \<and>
       tzinfo (ts ! i) = Some dst \<and>
       strptime env r_sunrise = Some sunrise \<and>
       strptime env r_sunset = Some sunset \<and>
       dfs ! i = (f64 (decimal_hour (hour sunrise) (minute sunrise) + (if dst = 0 then 1 else 2)),
                  f64 (decimal_hour (hour sunset) (minute sunset) + (if dst = 0 then 1 else 2))) \<and>
       (real (hour sunrise) + real (minute sunrise) / 60 + (if dst = 0 then 1 else 2))
           * (1 - 1 / 2 ^ 53) ^ 3 \<le> fst (dfs ! i) \<and>
       fst (dfs ! i) \<le> (real (hour sunrise) + real (minute sunrise) / 60 + (if dst = 0 then 1 else 2))
           * (1 + 1 / 2 ^ 53) ^ 3 \<and>
       (real (hour sunset) + real (minute sunset) / 60 + (if dst = 0 then 1 else 2))
           * (1 - 1 / 2 ^ 53) ^ 3 \<le> snd (dfs ! i) \<and>
       snd (dfs ! i) \<le> (real (hour sunset) + real (minute sunset) / 60 + (if dst = 0 then 1 else 2))
           * (1 + 1 / 2 ^ 53) ^ 3)"
proof -
  from get_daylight_factors_Inr[OF assms] obtain tzinfo where
    tz: "pytz_timezone env tz = Some tzinfo" and len: "length dfs = length ts"
    and nth: "\<forall>i < length ts. \<exists>r_sunrise r_sunset dst sunrise sunset.
       requests_get env lat lng (date (ts ! i)) = Some (r_sunrise, r_sunset) \<and>
       tzinfo (ts ! i) = Some dst \<and>
       strptime env r_sunrise = Some sunrise \<and>
       strptime env r_sunset = Some sunset \<and>
       dfs ! i = (f64 (decimal_hour (hour sunrise) (minute sunrise) + (if dst = 0 then 1 else 2)),
                  f64 (decimal_hour (hour sunset) (minute sunset) + (if dst = 0 then 1 else 2)))"
    by blast
  have b: "(real hh + real mm / 60 + (if dst = 0 then 1 else 2)) * (1 - 1 / 2 ^ 53) ^ 3
             \<le> f64 (decimal_hour hh mm + (if dst = 0 then 1 else 2))
           \<and> f64 (decimal_hour hh mm + (if dst = 0 then 1 else 2))
             \<le> (real hh + real mm / 60 + (if dst = 0 then 1 else 2)) * (1 + 1 / 2 ^ 53) ^ 3"
    for hh mm :: nat and dst :: int
    using daylight_sum_bounds[of "if dst = 0 then 1 else 2" hh mm] by simp
  have "\<exists>r_sunrise r_sunset dst sunrise sunset.
       requests_get env lat lng (date (ts ! i)) = Some (r_sunrise, r_sunset) \<and>
       tzinfo (ts ! i) = Some dst \<and>
       strptime env r_sunrise = Some sunrise \<and>
       strptime env r_sunset = Some sunset \<and>
       dfs ! i = (f64 (decimal_hour (hour sunrise) (minute sunrise) + (if dst = 0 then 1 else 2)),
                  f64 (decimal_hour (hour sunset) (minute sunset) + (if dst = 0 then 1 else 2))) \<and>
       (real (hour sunrise) + real (minute sunrise) / 60 + (if dst = 0 then 1 else 2))
           * (1 - 1 / 2 ^ 53) ^ 3 \<le> fst (dfs ! i) \<and>
       fst (dfs ! i) \<le> (real (hour sunrise) + real (minute sunrise) / 60 + (if dst = 0 then 1 else 2))
           * (1 + 1 / 2 ^ 53) ^ 3 \<and>
       (real (hour sunset) + real (minute sunset) / 60 + (if dst = 0 then 1 else 2))
           * (1 - 1 / 2 ^ 53) ^ 3 \<le> snd (dfs ! i) \<and>
       snd (dfs ! i) \<le> (real (hour sunset) + real (minute sunset) / 60 + (if dst = 0 then 1 else 2))
           * (1 + 1 / 2 ^ 53) ^ 3"
    if i: "i < length ts" for i
  proof -
    from nth i obtain r_sunrise r_sunset dst sunrise sunset where
      f: "requests_get env lat lng (date (ts ! i)) = Some (r_sunrise, r_sunset)"
        "tzinfo (ts ! i) = Some dst"
        "strptime env r_sunrise = Some sunrise"
        "strptime env r_sunset = Some sunset"
      and d: "dfs ! i = (f64 (decimal_hour (hour sunrise) (minute sunrise) + (if dst = 0 then 1 else 2)),
                  f64 (decimal_hour (hour sunset) (minute sunset) + (if dst = 0 then 1 else 2)))"
      by blast
    from d have fs: "fst (dfs ! i) = f64 (decimal_hour (hour sunrise) (minute sunrise) + (if dst = 0 then 1 else 2))"
      "snd (dfs ! i) = f64 (decimal_hour (hour sunset) (minute sunset) + (if dst = 0 then 1 else 2))"
      by simp_all
    show ?thesis
      using f d b[of "hour sunrise" "minute sunrise" dst] b[of "hour sunset" "minute sunset" dst]
      unfolding fs by blast
  qed
  with tz len show ?thesis by blast
qed

theorem daylight_saving_offset_witness:
  "\<exists>dfs. get_daylight_factors example_env
            [\<lparr>hour = 12, minute = 0, second = 0, date = (2024, 6, 15)\<rparr>,
             \<lparr>hour = 12, minute = 0, second = 0, date = (2024, 1, 15)\<rparr>]
            ''Europe/Copenhagen'' 55.686 12.570 = Inr dfs
      \<and> length dfs = 2
      \<and> dfs ! 0 = (f64 (decimal_hour 2 25 + 2), f64 (decimal_hour 19 55 + 2))
      \<and> dfs ! 1 = (f64 (decimal_hour 7 30 + 1), f64 (decimal_hour 15 50 + 1))"
proof -
  let ?ts = "[\<lparr>hour = 12, minute = 0, second = 0, date = (2024, 6, 15)\<rparr>,
             \<lparr>hour = 12, minute = 0, second = 0, date = (2024, 1, 15)\<rparr>]"
  obtain dfs where run: "get_daylight_factors example_env ?ts ''Europe/Copenhagen'' 55.686 12.570 = Inr dfs"
    by (simp add: get_daylight_factors_def example_env_def bind_err_def)
  from daylight_saving_offset[OF run] obtain tzinfo where
    tz: "pytz_timezone example_env ''Europe/Copenhagen'' = Some tzinfo"
    and l: "length dfs = length ?ts"
    and t: "\<forall>i < length ?ts. \<exists>r_sunrise r_sunset dst sunrise sunset.
       requests_get example_env 55.686 12.570 (date (?ts ! i)) = Some (r_sunrise, r_sunset) \<and>
       tzinfo (?ts ! i) = Some dst \<and>
       strptime example_env r_sunrise = Some sunrise \<and>
       strptime example_env r_sunset = Some sunset \<and>
       dfs ! i = (f64 (decimal_hour (hour sunrise) (minute sunrise) + (if dst = 0 then 1 else 2)),
                  f64 (decimal_hour (hour sunset) (minute sunset) + (if dst = 0 then 1 else 2)))"
    by blast
  from tz have tzinfo: "tzinfo = (\<lambda>t. case date t of (y, m, d) \<Rightarrow>
                            if 4 \<le> m \<and> m \<le> 9 then Some 3600 else Some 0)"
    by (simp add: example_env_def)
  from l have l2: "length dfs = 2" by simp
  have "0 < length ?ts" by simp
  with t obtain r_sunrise r_sunset dst sunrise sunset where
    "requests_get example_env 55.686 12.570 (date (?ts ! 0)) = Some (r_sunrise, r_sunset)"
    "tzinfo (?ts ! 0) = Some dst"
    "strptime example_env r_sunrise = Some sunrise"
    "strptime example_env r_sunset = Some sunset"
    "dfs ! 0 = (f64 (decimal_hour (hour sunrise) (minute sunrise) + (if dst = 0 then 1 else 2)),
                f64 (decimal_hour (hour sunset) (minute sunset) + (if dst = 0 then 1 else 2)))"
    by blast
  then have d0: "dfs ! 0 = (f64 (decimal_hour 2 25 + 2), f64 (decimal_hour 19 55 + 2))"
    by (auto simp: example_env_def tzinfo)
  have "1 < length ?ts" by simp
  with t obtain r_sunrise r_sunset dst sunrise sunset where
    "requests_get example_env 55.686 12.570 (date (?ts ! 1)) = Some (r_sunrise, r_sunset)"
    "tzinfo (?ts ! 1) = Some dst"
    "strptime example_env r_sunrise = Some sunrise"
    "strptime example_env r_sunset = Some sunset"
    "dfs ! 1 = (f64 (decimal_hour (hour sunrise) (minute sunrise) + (if dst = 0 then 1 else 2)),
                f64 (decimal_hour (hour sunset) (minute sunset) + (if dst = 0 then 1 else 2)))"
    by blast
  then have d1: "dfs ! 1 = (f64 (decimal_hour 7 30 + 1), f64 (decimal_hour 15 50 + 1))"
    by (auto simp: example_env_def tzinfo)
  from run l2 d0 d1 show ?thesis by blast
qed

subsection \<open>The net radiation argument is not written\<close>

text \<open>
  C10. Whatever \<open>calculate_penman_monteith\<close> returns, it allocates one array and leaves
  every array that existed before the call as it was; the net radiation argument in
  particular holds the same samples after the call as before.
\<close>

theorem net_radiation_unchanged:
  assumes "calculate_penman_monteith env h temp rh ws rn pres ts = (r, h')"
    and "rn < length h"
  shows "h' ! rn = h ! rn \<and> length h' = Suc (length h) \<and> (\<forall>a < length h. h' ! a = h ! a)"
  using calculate_penman_monteith_frame[OF assms(1)] assms(2) by simp

theorem net_radiation_unchanged_witness:
  "\<exists>pm h'. calculate_penman_monteith example_env scenario_store 0 1 2 3 4 example_times = (Inr pm, h')
      \<and> h' ! 3 = [uniform (Fin 10), uniform (Fin 10)] \<and> length h' = 6"
proof -
  from scenario_run obtain pm h' where
    run: "calculate_penman_monteith example_env scenario_store 0 1 2 3 4 example_times = (Inr pm, h')"
    by blast
  have rn: "3 < length scenario_store" by (simp add: scenario_store_def)
  from net_radiation_unchanged[OF run rn]
  have "h' ! 3 = [uniform (Fin 10), uniform (Fin 10)]" "length h' = 6"
    by (simp_all add: scenario_store_def)
  with run show ?thesis by blast
qed

subsection \<open>The end-to-end scenario\<close>

text \<open>
  C9. At a daytime timestep (the float of the hour of day within [sunrise, sunset) of the
  timestep's daylight factors, so \<open>G = 0.1 rn\<close>)
  and a cell with temperature 15, relative humidity 70, wind speed 3, net radiation 10
  and pressure 101.3, the Penman-Monteith value is a number strictly between 0 and 2;
  and at a cell with temperature 15, global radiation 8 and pressure 101.3, the Makkink
  value is a number strictly between 0 and 1.5.
\<close>

theorem scenario_pet_plausible:
  assumes "calculate_penman_monteith env h temp rh ws rn pres ts = (Inr pm, h')"
    and "temp < length h" and "rh < length h" and "ws < length h" and "rn < length h"
    and "pres < length h"
    and "get_daylight_factors env ts ''Europe/Copenhagen'' 55.686 12.570 = Inr dfs"
    and "i < length ts" and "i < length pm"
    and "fst (dfs ! i) \<le> decimal_hour (hour (ts ! i)) (minute (ts ! i))"
    and "decimal_hour (hour (ts ! i)) (minute (ts ! i)) < snd (dfs ! i)"
    and "(h ! temp ! i) c = Fin 15" and "(h ! rh ! i) c = Fin 70" and "(h ! ws ! i) c = Fin 3"
    and "(h ! rn ! i) c = Fin 10" and "(h ! pres ! i) c = Fin 101.3"
    and "j < length (calculate_makkink mtemp rs mpres)"
    and "(mtemp ! j) c' = Fin 15" and "(rs ! j) c' = Fin 8" and "(mpres ! j) c' = Fin 101.3"
  shows "(\<exists>v. (pm ! i) c = Fin v \<and> 0 < v \<and> v < 2)
         \<and> (\<exists>v. (calculate_makkink mtemp rs mpres ! j) c' = Fin v \<and> 0 < v \<and> v < 1.5)"
proof
  have "(h' ! length h ! i) c = Fin 0.1 * (h ! rn ! i) c"
    using soil_heat_flux_value[OF assms(1,5,7,8)] assms(10,11) by simp
  then have G: "(h' ! length h ! i) c = Fin 1"
    by (simp add: assms(15))
  have d: "- 230 \<le> (15 :: real)" "(15 :: real) \<le> 1059" "(0 :: real) \<le> 101.3" "(0 :: real) \<le> 3"
    by simp_all
  have "(pm ! i) c = Fin (penman_monteith_spec 15 70 3 10 1 101.3)"
    using assms(1-6,9) assms(12-16) G d
    by (rule penman_monteith_value)
  with penman_monteith_spec_scenario show "\<exists>v. (pm ! i) c = Fin v \<and> 0 < v \<and> v < 2"
    by blast
next
  have "(calculate_makkink mtemp rs mpres ! j) c' = Fin (makkink_spec 15 8 101.3)"
    using assms(17-20) by (rule makkink_value) simp_all
  with makkink_spec_scenario
  show "\<exists>v. (calculate_makkink mtemp rs mpres ! j) c' = Fin v \<and> 0 < v \<and> v < 1.5"
    by blast
qed

theorem scenario_pet_plausible_witness:
  "\<exists>pm h'. calculate_penman_monteith example_env scenario_store 0 1 2 3 4 example_times = (Inr pm, h')
      \<and> (\<exists>v. (pm ! 0) (0, 0) = Fin v \<and> 0 < v \<and> v < 2)
      \<and> (\<exists>v. (calculate_makkink [uniform (Fin 15)] [uniform (Fin 8)] [uniform (Fin 101.3)] ! 0) (0, 0) = Fin v
               \<and> 0 < v \<and> v < 1.5)"
proof -
  from scenario_run obtain pm h' where
    run: "calculate_penman_monteith example_env scenario_store 0 1 2 3 4 example_times = (Inr pm, h')"
    and l: "length pm = 2"
    by blast
  have a: "0 < length scenario_store" "1 < length scenario_store" "2 < length scenario_store"
    "3 < length scenario_store" "4 < length scenario_store"
    by (simp_all add: scenario_store_def)
  have t: "0 < length example_times" by (simp add: example_times_def)
  have i: "0 < length pm" using l by simp
  have day: "fst ([(f64 (decimal_hour 2 25 + 2), f64 (decimal_hour 19 55 + 2)),
                     (f64 (decimal_hour 2 25 + 2), f64 (decimal_hour 19 55 + 2))] ! 0)
               \<le> decimal_hour (hour (example_times ! 0)) (minute (example_times ! 0))"
    "decimal_hour (hour (example_times ! 0)) (minute (example_times ! 0))
       < snd ([(f64 (decimal_hour 2 25 + 2), f64 (decimal_hour 19 55 + 2)),
                     (f64 (decimal_hour 2 25 + 2), f64 (decimal_hour 19 55 + 2))] ! 0)"
    by (simp_all add: example_times_def example_window)
  have v: "(scenario_store ! 0 ! 0) (0, 0) = Fin 15" "(scenario_store ! 1 ! 0) (0, 0) = Fin 70"
    "(scenario_store ! 2 ! 0) (0, 0) = Fin 3" "(scenario_store ! 3 ! 0) (0, 0) = Fin 10"
    "(scenario_store ! 4 ! 0) (0, 0) = Fin 101.3"
    by (simp_all add: scenario_store_def uniform_def)
  have j: "0 < length (calculate_makkink [uniform (Fin 15)] [uniform (Fin 8)] [uniform (Fin 101.3)])"
    by (simp add: scenario_makkink(1))
  have m: "([uniform (Fin 15)] ! 0) (0, 0) = Fin 15" "([uniform (Fin 8)] ! 0) (0, 0) = Fin 8"
    "([uniform (Fin 101.3)] ! 0) (0, 0) = Fin 101.3"
    by (simp_all add: uniform_def)
  from scenario_pet_plausible[OF run a example_daylight_factors t i day v j m] run
  show ?thesis by blast
qed

subsection \<open>The stages of the pipeline\<close>

lemma deaccumulate_vars_missing:
  "\<exists>v \<in> set vars. ds v = None \<Longrightarrow> deaccumulate_vars vars ds = Inl KeyError"
proof (induction vars arbitrary: ds)
  case Nil
  then show ?case by simp
next
  case (Cons var vars)
  show ?case
  proof (cases "ds var")
    case None
    then show ?thesis by simp
  next
    case (Some data)
    with Cons.prems obtain v where "v \<in> set vars" "ds v = None" by auto
    then have "\<exists>v \<in> set vars. (ds(var \<mapsto> deaccumulate data)) v = None"
      using Some by (intro bexI[of _ v]) auto
    then have "deaccumulate_vars vars (ds(var \<mapsto> deaccumulate data)) = Inl KeyError"
      by (rule Cons.IH)
    then show ?thesis by (simp only: deaccumulate_vars.simps Some option.case)
  qed
qed

lemma deaccumulate_vars_Inr:
  assumes "deaccumulate_vars accumulated_vars ds = Inr ds'"
  shows "ds' = (\<lambda>v. if v \<in> set accumulated_vars then map_option deaccumulate (ds v) else ds v)"
    and "\<forall>v \<in> set accumulated_vars. ds v \<noteq> None"
proof -
  show p: "\<forall>v \<in> set accumulated_vars. ds v \<noteq> None"
  proof (rule ccontr)
    assume "\<not> (\<forall>v \<in> set accumulated_vars. ds v \<noteq> None)"
    then have "\<exists>v \<in> set accumulated_vars. ds v = None" by simp
    then have "deaccumulate_vars accumulated_vars ds = Inl KeyError"
      by (rule deaccumulate_vars_missing)
    with assms show False by simp
  qed
  from deaccumulate_vars_result[OF distinct_accumulated_vars p] assms
  show "ds' = (\<lambda>v. if v \<in> set accumulated_vars then map_option deaccumulate (ds v) else ds v)"
    by simp
qed

lemma lookup_Inr: "lookup ds var = Inr data \<longleftrightarrow> ds var = Some data"
  by (simp add: lookup_def split: option.splits)

lemma convert_units_Inr:
  assumes "convert_units ds = Inr ds1"
  shows "\<exists>pres temp grad nswrf nlwrf.
      ds ''pres'' = Some pres \<and> ds ''temp'' = Some temp \<and> ds ''grad'' = Some grad \<and>
      ds ''nswrf'' = Some nswrf \<and> ds ''nlwrf'' = Some nlwrf \<and>
      ds1 ''pres'' = Some (arr_scale pres (Fin 0.001)) \<and>
      ds1 ''temp'' = Some (arr_shift temp (Fin 273.15)) \<and>
      ds1 ''grad'' = Some (arr_scale (deaccumulate grad) (Fin 0.000001)) \<and>
      ds1 ''rn'' = Some (arr_scale (arr_add (deaccumulate nswrf) (deaccumulate nlwrf)) (Fin 0.000001))"
proof -
  from assms obtain pres temp ds3 where
    pres: "ds ''pres'' = Some pres" and temp: "ds ''temp'' = Some temp"
    and de: "deaccumulate_vars accumulated_vars
               (ds(''pres'' \<mapsto> arr_scale pres (Fin 0.001), ''temp'' \<mapsto> arr_shift temp (Fin 273.15))) = Inr ds3"
    and rest: "bind_err (lookup ds3 ''nswrf'') (\<lambda>nswrf.
     bind_err (lookup ds3 ''nlwrf'') (\<lambda>nlwrf.
     let ds = ds3(''rn'' \<mapsto> arr_add nswrf nlwrf) in
     bind_err (lookup ds ''grad'') (\<lambda>grad.
     let ds = ds(''grad'' \<mapsto> arr_scale grad (Fin 0.000001)) in
     bind_err (lookup ds ''rn'') (\<lambda>rn.
     Inr (ds(''rn'' \<mapsto> arr_scale rn (Fin 0.000001))))))) = Inr ds1"
    unfolding convert_units_def by (auto simp: bind_err_Inr lookup_Inr Let_def)
  let ?ds2 = "ds(''pres'' \<mapsto> arr_scale pres (Fin 0.001), ''temp'' \<mapsto> arr_shift temp (Fin 273.15))"
  note d = deaccumulate_vars_Inr[OF de]
  from d(2) obtain grad nswrf nlwrf where
    g: "ds ''grad'' = Some grad" and ns: "ds ''nswrf'' = Some nswrf" and nl: "ds ''nlwrf'' = Some nlwrf"
    by (auto simp: accumulated_vars_def)
  have ds3: "ds3 ''grad'' = Some (deaccumulate grad)" "ds3 ''nswrf'' = Some (deaccumulate nswrf)"
    "ds3 ''nlwrf'' = Some (deaccumulate nlwrf)"
    "ds3 ''pres'' = Some (arr_scale pres (Fin 0.001))"
    "ds3 ''temp'' = Some (arr_shift temp (Fin 273.15))"
    unfolding d(1) by (simp_all add: accumulated_vars_def g ns nl)
  from rest have ds1: "ds1 = ds3(''grad'' \<mapsto> arr_scale (deaccumulate grad) (Fin 0.000001),
      ''rn'' \<mapsto> arr_scale (arr_add (deaccumulate nswrf) (deaccumulate nlwrf)) (Fin 0.000001))"
    by (auto simp: bind_err_Inr lookup_Inr Let_def ds3)
  show ?thesis
    using pres temp g ns nl by (simp add: ds1 ds3)
qed

lemma pet_stage_Inr:
  assumes "pet_stage env ts ds = Inr ds'"
  shows "ds' ''grad'' = ds ''grad''" "ds' ''rn'' = ds ''rn''" "ds' ''pres'' = ds ''pres''"
    "ds' ''temp'' = ds ''temp''"
proof -
  from assms obtain temp grad pres rh ws rn where
    v: "ds ''temp'' = Some temp" "ds ''grad'' = Some grad" "ds ''pres'' = Some pres"
       "ds ''rh'' = Some rh" "ds ''ws'' = Some ws" "ds ''rn'' = Some rn"
    and rest: "(case calculate_penman_monteith env [temp, rh, ws, rn, pres] 0 1 2 3 4 ts of
       (Inl e, h) \<Rightarrow> Inl e
     | (Inr pm, h) \<Rightarrow>
         Inr (ds(''makkink'' \<mapsto> calculate_makkink temp grad pres,
                 ''temp'' \<mapsto> h ! 0, ''rh'' \<mapsto> h ! 1, ''ws'' \<mapsto> h ! 2, ''rn'' \<mapsto> h ! 3,
                 ''pres'' \<mapsto> h ! 4, ''penman_monteith'' \<mapsto> pm))) = Inr ds'"
    unfolding pet_stage_def
    by (auto simp: bind_err_Inr lookup_Inr Let_def)
  obtain r h where c: "calculate_penman_monteith env [temp, rh, ws, rn, pres] 0 1 2 3 4 ts = (r, h)"
    by (cases "calculate_penman_monteith env [temp, rh, ws, rn, pres] 0 1 2 3 4 ts")
  from rest c obtain pm where r: "r = Inr pm"
    by (cases r) simp_all
  from c r have run: "calculate_penman_monteith env [temp, rh, ws, rn, pres] 0 1 2 3 4 ts = (Inr pm, h)"
    by simp
  from rest run have ds': "ds' = ds(''makkink'' \<mapsto> calculate_makkink temp grad pres,
                 ''temp'' \<mapsto> h ! 0, ''rh'' \<mapsto> h ! 1, ''ws'' \<mapsto> h ! 2, ''rn'' \<mapsto> h ! 3,
                 ''pres'' \<mapsto> h ! 4, ''penman_monteith'' \<mapsto> pm)"
    by simp
  from calculate_penman_monteith_frame[OF run]
  have "h ! 0 = temp" "h ! 3 = rn" "h ! 4 = pres" by simp_all
  then show "ds' ''grad'' = ds ''grad''" "ds' ''rn'' = ds ''rn''" "ds' ''pres'' = ds ''pres''"
    "ds' ''temp'' = ds ''temp''"
    by (simp_all add: ds' v)
qed

lemma export_units_Inr:
  assumes "export_units ds = Inr ds'"
  shows "\<exists>grad rn. ds ''grad'' = Some grad \<and> ds ''rn'' = Some rn \<and>
      ds' ''grad'' = Some (arr_scale grad (Fin 1000)) \<and>
      ds' ''rn'' = Some (arr_scale rn (Fin 1000)) \<and>
      ds' ''pres'' = ds ''pres'' \<and> ds' ''temp'' = ds ''temp''"
  using assms unfolding export_units_def
  by (auto simp: bind_err_Inr lookup_Inr Let_def)

lemma example_pipeline: "\<exists>ds'. pipeline example_env example_times example_ds = Inr ds'"
  unfolding pipeline_def convert_units_def pet_stage_def export_units_def
    calculate_penman_monteith_def deepcopy_def example_daylight_factors
  by (simp add: bind_err_def lookup_def example_ds_def accumulated_vars_def example_times_def
        deaccumulate_def arr_sub_def arr_add_def arr_scale_def arr_shift_def
        enumerate_eq_zip upt_rec example_window)

lemma nth_arr_scale: "i < length a \<Longrightarrow> (arr_scale a k ! i) c = (a ! i) c * k"
  by (simp add: arr_scale_def)

lemma nth_arr_shift: "i < length a \<Longrightarrow> (arr_shift a k ! i) c = (a ! i) c - k"
  by (simp add: arr_shift_def)

lemma nth_arr_add:
  "i < length a \<Longrightarrow> i < length b \<Longrightarrow> (arr_add a b ! i) c = (a ! i) c + (b ! i) c"
  by (simp add: arr_add_def)

lemma length_arr:
  "length (arr_scale a k) = length a" "length (arr_shift a k) = length a"
  "length (arr_add a b) = min (length a) (length b)"
  by (simp_all add: arr_scale_def arr_shift_def arr_add_def)

subsection \<open>Unit normalization\<close>

text \<open>
  C7. When the pipeline (unit conversion, the two PET functions, export conversion)
  completes, the fields it leaves are related to the fields it was given sample by
  sample, at every timestep \<open>i\<close> and cell \<open>c\<close>:
  \<^item> the pressure sample is the input sample times 1e-3: a number \<open>x\<close> becomes
    \<open>x * 0.001\<close>;
  \<^item> the temperature sample is the input sample minus 273.15: a number \<open>x\<close> becomes
    \<open>x - 273.15\<close>;
  \<^item> the \<open>grad\<close> sample after the unit conversion is the de-accumulated input sample
    (the input sample at timestep 0, the difference to the previous timestep later) times
    1e-6, and the exported sample is that times 1e3: a de-accumulated number \<open>d\<close> becomes
    \<open>d * 0.000001\<close> and then \<open>d * 0.000001 * 1000\<close>, which is \<open>d * 0.001\<close>;
  \<^item> the \<open>rn\<close> sample is the same for the sum of the de-accumulated samples of the net
    short-wave and the net long-wave flux.

  The fields keep their lengths. The de-accumulated sample is the floating-point
  difference of the input samples; the unit transforms are stated on the samples with the
  floating-point operators, for every sample, and over the real numbers for the samples
  that are numbers.
\<close>

theorem unit_normalization:
  assumes "pipeline env ts ds = Inr ds'"
  shows "\<exists>pres temp grad nswrf nlwrf ds1 grad1 rn1 pres' temp' grad' rn'.
      ds ''pres'' = Some pres \<and> ds ''temp'' = Some temp \<and> ds ''grad'' = Some grad \<and>
      ds ''nswrf'' = Some nswrf \<and> ds ''nlwrf'' = Some nlwrf \<and>
      convert_units ds = Inr ds1 \<and> ds1 ''grad'' = Some grad1 \<and> ds1 ''rn'' = Some rn1 \<and>
      ds' ''pres'' = Some pres' \<and> ds' ''temp'' = Some temp' \<and>
      ds' ''grad'' = Some grad' \<and> ds' ''rn'' = Some rn' \<and>
      length pres' = length pres \<and> length temp' = length temp \<and>
      length grad1 = length grad \<and> length grad' = length grad \<and>
      length rn1 = min (length nswrf) (length nlwrf) \<and>
      length rn' = min (length nswrf) (length nlwrf) \<and>
      (\<forall>i c. i < length pres \<longrightarrow>
         (pres' ! i) c = (pres ! i) c * Fin 0.001 \<and>
         (\<forall>x. (pres ! i) c = Fin x \<longrightarrow> (pres' ! i) c = Fin (x * 0.001))) \<and>
      (\<forall>i c. i < length temp \<longrightarrow>
         (temp' ! i) c = (temp ! i) c - Fin 273.15 \<and>
         (\<forall>x. (temp ! i) c = Fin x \<longrightarrow> (temp' ! i) c = Fin (x - 273.15))) \<and>
      (\<forall>i c. i < length grad \<longrightarrow>
         (grad1 ! i) c = (if i = 0 then (grad ! 0) c else (grad ! i) c - (grad ! (i - 1)) c)
                           * Fin 0.000001 \<and>
         (grad' ! i) c = (grad1 ! i) c * Fin 1000 \<and>
         (\<forall>d. (if i = 0 then (grad ! 0) c else (grad ! i) c - (grad ! (i - 1)) c) = Fin d \<longrightarrow>
            (grad1 ! i) c = Fin (d * 0.000001) \<and>
            (grad' ! i) c = Fin (d * 0.000001 * 1000) \<and>
            (grad' ! i) c = Fin (d * 0.001))) \<and>
      (\<forall>i c. i < length nswrf \<and> i < length nlwrf \<longrightarrow>
         (rn1 ! i) c = ((if i = 0 then (nswrf ! 0) c else (nswrf ! i) c - (nswrf ! (i - 1)) c)
                        + (if i = 0 then (nlwrf ! 0) c else (nlwrf ! i) c - (nlwrf ! (i - 1)) c))
                           * Fin 0.000001 \<and>
         (rn' ! i) c = (rn1 ! i) c * Fin 1000 \<and>
         (\<forall>d. (if i = 0 then (nswrf ! 0) c else (nswrf ! i) c - (nswrf ! (i - 1)) c)
                + (if i = 0 then (nlwrf ! 0) c else (nlwrf ! i) c - (nlwrf ! (i - 1)) c) = Fin d \<longrightarrow>
            (rn1 ! i) c = Fin (d * 0.000001) \<and>
            (rn' ! i) c = Fin (d * 0.000001 * 1000) \<and>
            (rn' ! i) c = Fin (d * 0.001)))"
proof -
  from assms obtain ds1 ds2 where
    c: "convert_units ds = Inr ds1" and p: "pet_stage env ts ds1 = Inr ds2"
    and e: "export_units ds2 = Inr ds'"
    unfolding pipeline_def by (auto simp: bind_err_Inr)
  from convert_units_Inr[OF c] obtain pres temp grad nswrf nlwrf where
    in1: "ds ''pres'' = Some pres" "ds ''temp'' = Some temp" "ds ''grad'' = Some grad"
      "ds ''nswrf'' = Some nswrf" "ds ''nlwrf'' = Some nlwrf"
    and o1: "ds1 ''pres'' = Some (arr_scale pres (Fin 0.001))"
      "ds1 ''temp'' = Some (arr_shift temp (Fin 273.15))"
      "ds1 ''grad'' = Some (arr_scale (deaccumulate grad) (Fin 0.000001))"
      "ds1 ''rn'' = Some (arr_scale (arr_add (deaccumulate nswrf) (deaccumulate nlwrf)) (Fin 0.000001))"
    by blast
  note o2 = pet_stage_Inr[OF p]
  from export_units_Inr[OF e] obtain g r where
    in3: "ds2 ''grad'' = Some g" "ds2 ''rn'' = Some r"
    and o3: "ds' ''grad'' = Some (arr_scale g (Fin 1000))" "ds' ''rn'' = Some (arr_scale r (Fin 1000))"
      "ds' ''pres'' = ds2 ''pres''" "ds' ''temp'' = ds2 ''temp''"
    by blast
  from in3 o2 o1 have g: "g = arr_scale (deaccumulate grad) (Fin 0.000001)"
    and r: "r = arr_scale (arr_add (deaccumulate nswrf) (deaccumulate nlwrf)) (Fin 0.000001)"
    by simp_all
  let ?grad1 = "arr_scale (deaccumulate grad) (Fin 0.000001)"
  let ?rn1 = "arr_scale (arr_add (deaccumulate nswrf) (deaccumulate nlwrf)) (Fin 0.000001)"
  let ?pres' = "arr_scale pres (Fin 0.001)"
  let ?temp' = "arr_shift temp (Fin 273.15)"
  let ?grad' = "arr_scale ?grad1 (Fin 1000)"
  let ?rn' = "arr_scale ?rn1 (Fin 1000)"
  have pres': "ds' ''pres'' = Some ?pres'"
    using o3(3) o2(3) o1(1) by simp
  have temp': "ds' ''temp'' = Some ?temp'"
    using o3(4) o2(4) o1(2) by simp
  have grad': "ds' ''grad'' = Some ?grad'"
    using o3(1) g by simp
  have rn': "ds' ''rn'' = Some ?rn'"
    using o3(2) r by simp
  have len: "length ?pres' = length pres" "length ?temp' = length temp"
    "length ?grad1 = length grad" "length ?grad' = length grad"
    "length ?rn1 = min (length nswrf) (length nlwrf)"
    "length ?rn' = min (length nswrf) (length nlwrf)"
    by (simp_all add: length_arr length_deaccumulate)
  have P: "\<forall>i c. i < length pres \<longrightarrow>
         (?pres' ! i) c = (pres ! i) c * Fin 0.001 \<and>
         (\<forall>x. (pres ! i) c = Fin x \<longrightarrow> (?pres' ! i) c = Fin (x * 0.001))"
    by (simp add: nth_arr_scale)
  have T: "\<forall>i c. i < length temp \<longrightarrow>
         (?temp' ! i) c = (temp ! i) c - Fin 273.15 \<and>
         (\<forall>x. (temp ! i) c = Fin x \<longrightarrow> (?temp' ! i) c = Fin (x - 273.15))"
    by (simp add: nth_arr_shift minus_fl_def)
  have G: "\<forall>i c. i < length grad \<longrightarrow>
         (?grad1 ! i) c = (if i = 0 then (grad ! 0) c else (grad ! i) c - (grad ! (i - 1)) c)
                           * Fin 0.000001 \<and>
         (?grad' ! i) c = (?grad1 ! i) c * Fin 1000 \<and>
         (\<forall>d. (if i = 0 then (grad ! 0) c else (grad ! i) c - (grad ! (i - 1)) c) = Fin d \<longrightarrow>
            (?grad1 ! i) c = Fin (d * 0.000001) \<and>
            (?grad' ! i) c = Fin (d * 0.000001 * 1000) \<and>
            (?grad' ! i) c = Fin (d * 0.001))"
  proof (intro allI impI)
    fix i c
    assume i: "i < length grad"
    have d: "(deaccumulate grad ! i) c
               = (if i = 0 then (grad ! 0) c else (grad ! i) c - (grad ! (i - 1)) c)"
      using nth_deaccumulate[OF i] by simp
    have a: "(?grad1 ! i) c = (deaccumulate grad ! i) c * Fin 0.000001"
      using i by (simp add: nth_arr_scale length_deaccumulate)
    have b: "(?grad' ! i) c = (?grad1 ! i) c * Fin 1000"
      using i by (simp add: nth_arr_scale length_arr length_deaccumulate)
    show "(?grad1 ! i) c = (if i = 0 then (grad ! 0) c else (grad ! i) c - (grad ! (i - 1)) c)
                           * Fin 0.000001 \<and>
         (?grad' ! i) c = (?grad1 ! i) c * Fin 1000 \<and>
         (\<forall>d. (if i = 0 then (grad ! 0) c else (grad ! i) c - (grad ! (i - 1)) c) = Fin d \<longrightarrow>
            (?grad1 ! i) c = Fin (d * 0.000001) \<and>
            (?grad' ! i) c = Fin (d * 0.000001 * 1000) \<and>
            (?grad' ! i) c = Fin (d * 0.001))"
      unfolding b unfolding a d by simp
  qed
  have R: "\<forall>i c. i < length nswrf \<and> i < length nlwrf \<longrightarrow>
         (?rn1 ! i) c = ((if i = 0 then (nswrf ! 0) c else (nswrf ! i) c - (nswrf ! (i - 1)) c)
                        + (if i = 0 then (nlwrf ! 0) c else (nlwrf ! i) c - (nlwrf ! (i - 1)) c))
                           * Fin 0.000001 \<and>
         (?rn' ! i) c = (?rn1 ! i) c * Fin 1000 \<and>
         (\<forall>d. (if i = 0 then (nswrf ! 0) c else (nswrf ! i) c - (nswrf ! (i - 1)) c)
                + (if i = 0 then (nlwrf ! 0) c else (nlwrf ! i) c - (nlwrf ! (i - 1)) c) = Fin d \<longrightarrow>
            (?rn1 ! i) c = Fin (d * 0.000001) \<and>
            (?rn' ! i) c = Fin (d * 0.000001 * 1000) \<and>
            (?rn' ! i) c = Fin (d * 0.001))"
  proof (intro allI impI)
    fix i c
    assume "i < length nswrf \<and> i < length nlwrf"
    then have i: "i < length nswrf" "i < length nlwrf" by simp_all
    have d: "(deaccumulate nswrf ! i) c
               = (if i = 0 then (nswrf ! 0) c else (nswrf ! i) c - (nswrf ! (i - 1)) c)"
      "(deaccumulate nlwrf ! i) c
               = (if i = 0 then (nlwrf ! 0) c else (nlwrf ! i) c - (nlwrf ! (i - 1)) c)"
      using nth_deaccumulate[OF i(1)] nth_deaccumulate[OF i(2)] by simp_all
    have s: "(arr_add (deaccumulate nswrf) (deaccumulate nlwrf) ! i) c
               = (deaccumulate nswrf ! i) c + (deaccumulate nlwrf ! i) c"
      using i by (simp add: nth_arr_add length_deaccumulate)
    have a: "(?rn1 ! i) c = ((deaccumulate nswrf ! i) c + (deaccumulate nlwrf ! i) c) * Fin 0.000001"
      using i s by (simp add: nth_arr_scale length_arr length_deaccumulate)
    have b: "(?rn' ! i) c = (?rn1 ! i) c * Fin 1000"
      using i by (simp add: nth_arr_scale length_arr length_deaccumulate)
    show "(?rn1 ! i) c = ((if i = 0 then (nswrf ! 0) c else (nswrf ! i) c - (nswrf ! (i - 1)) c)
                        + (if i = 0 then (nlwrf ! 0) c else (nlwrf ! i) c - (nlwrf ! (i - 1)) c))
                           * Fin 0.000001 \<and>
         (?rn' ! i) c = (?rn1 ! i) c * Fin 1000 \<and>
         (\<forall>d. (if i = 0 then (nswrf ! 0) c else (nswrf ! i) c - (nswrf ! (i - 1)) c)
                + (if i = 0 then (nlwrf ! 0) c else (nlwrf ! i) c - (nlwrf ! (i - 1)) c) = Fin d \<longrightarrow>
            (?rn1 ! i) c = Fin (d * 0.000001) \<and>
            (?rn' ! i) c = Fin (d * 0.000001 * 1000) \<and>
            (?rn' ! i) c = Fin (d * 0.001))"
      unfolding b unfolding a d by simp
  qed
  show ?thesis
    apply (rule exI[of _ pres], rule exI[of _ temp], rule exI[of _ grad], rule exI[of _ nswrf])
    apply (rule exI[of _ nlwrf], rule exI[of _ ds1], rule exI[of _ ?grad1], rule exI[of _ ?rn1])
    apply (rule exI[of _ ?pres'], rule exI[of _ ?temp'], rule exI[of _ ?grad'], rule exI[of _ ?rn'])
    apply (intro conjI)
    apply (rule in1 c o1 pres' temp' grad' rn' len P T G R)+
    done
qed

text \<open>
  In the example dataset the pressure 101325 becomes 101.325 and the temperature 288.15
  becomes 15; the accumulated global radiation 1000000, 3000000 becomes 1000, 2000; and
  the accumulated net fluxes 800000, 2000000 and -100000, -300000 become the net
  radiation 700, 1000.
\<close>

theorem unit_normalization_witness:
  "\<exists>ds' pres' temp' grad' rn'. pipeline example_env example_times example_ds = Inr ds'
      \<and> ds' ''pres'' = Some pres' \<and> ds' ''temp'' = Some temp'
      \<and> ds' ''grad'' = Some grad' \<and> ds' ''rn'' = Some rn'
      \<and> (pres' ! 0) (0, 0) = Fin 101.325 \<and> (temp' ! 0) (0, 0) = Fin 15
      \<and> (grad' ! 0) (0, 0) = Fin 1000 \<and> (grad' ! 1) (0, 0) = Fin 2000
      \<and> (rn' ! 0) (0, 0) = Fin 700 \<and> (rn' ! 1) (0, 0) = Fin 1000"
proof -
  from example_pipeline obtain ds' where
    run: "pipeline example_env example_times example_ds = Inr ds'"
    by blast
  from unit_normalization[OF run] obtain pres temp grad nswrf nlwrf ds1 grad1 rn1 pres' temp' grad' rn'
    where i: "example_ds ''pres'' = Some pres" "example_ds ''temp'' = Some temp"
      "example_ds ''grad'' = Some grad" "example_ds ''nswrf'' = Some nswrf"
      "example_ds ''nlwrf'' = Some nlwrf"
    and o: "ds' ''pres'' = Some pres'" "ds' ''temp'' = Some temp'"
      "ds' ''grad'' = Some grad'" "ds' ''rn'' = Some rn'"
    and P: "\<forall>i c. i < length pres \<longrightarrow>
         (pres' ! i) c = (pres ! i) c * Fin 0.001 \<and>
         (\<forall>x. (pres ! i) c = Fin x \<longrightarrow> (pres' ! i) c = Fin (x * 0.001))"
    and T: "\<forall>i c. i < length temp \<longrightarrow>
         (temp' ! i) c = (temp ! i) c - Fin 273.15 \<and>
         (\<forall>x. (temp ! i) c = Fin x \<longrightarrow> (temp' ! i) c = Fin (x - 273.15))"
    and G: "\<forall>i c. i < length grad \<longrightarrow>
         (grad1 ! i) c = (if i = 0 then (grad ! 0) c else (grad ! i) c - (grad ! (i - 1)) c)
                           * Fin 0.000001 \<and>
         (grad' ! i) c = (grad1 ! i) c * Fin 1000 \<and>
         (\<forall>d. (if i = 0 then (grad ! 0) c else (grad ! i) c - (grad ! (i - 1)) c) = Fin d \<longrightarrow>
            (grad1 ! i) c = Fin (d * 0.000001) \<and>
            (grad' ! i) c = Fin (d * 0.000001 * 1000) \<and>
            (grad' ! i) c = Fin (d * 0.001))"
    and R: "\<forall>i c. i < length nswrf \<and> i < length nlwrf \<longrightarrow>
         (rn1 ! i) c = ((if i = 0 then (nswrf ! 0) c else (nswrf ! i) c - (nswrf ! (i - 1)) c)
                        + (if i = 0 then (nlwrf ! 0) c else (nlwrf ! i) c - (nlwrf ! (i - 1)) c))
                           * Fin 0.000001 \<and>
         (rn' ! i) c = (rn1 ! i) c * Fin 1000 \<and>
         (\<forall>d. (if i = 0 then (nswrf ! 0) c else (nswrf ! i) c - (nswrf ! (i - 1)) c)
                + (if i = 0 then (nlwrf ! 0) c else (nlwrf ! i) c - (nlwrf ! (i - 1)) c) = Fin d \<longrightarrow>
            (rn1 ! i) c = Fin (d * 0.000001) \<and>
            (rn' ! i) c = Fin (d * 0.000001 * 1000) \<and>
            (rn' ! i) c = Fin (d * 0.001))"
    by (elim exE conjE) (rule that, assumption+)
  from i have v: "pres = [uniform (Fin 101325), uniform (Fin 101300)]"
    "temp = [uniform (Fin 288.15), uniform (Fin 289.15)]"
    "grad = [uniform (Fin 1000000), uniform (Fin 3000000)]"
    "nswrf = [uniform (Fin 800000), uniform (Fin 2000000)]"
    "nlwrf = [uniform (Fin (- 100000)), uniform (Fin (- 300000))]"
    by (simp_all add: example_ds_def)
  have p0: "(pres' ! 0) (0, 0) = Fin 101.325"
    using P[rule_format, of 0 "(0, 0)", THEN conjunct2, rule_format, of 101325]
    by (simp add: v uniform_def)
  have t0: "(temp' ! 0) (0, 0) = Fin 15"
    using T[rule_format, of 0 "(0, 0)", THEN conjunct2, rule_format, of "288.15"]
    by (simp add: v uniform_def)
  note G' = G[rule_format, THEN conjunct2, THEN conjunct2, rule_format, THEN conjunct2, THEN conjunct2]
  note R' = R[rule_format, THEN conjunct2, THEN conjunct2, rule_format, THEN conjunct2, THEN conjunct2]
  have g0: "(grad' ! 0) (0, 0) = Fin 1000"
    using G'[of 0 "(0, 0)" 1000000] by (simp add: v uniform_def)
  have g1: "(grad' ! 1) (0, 0) = Fin 2000"
    using G'[of 1 "(0, 0)" 2000000] by (simp add: v uniform_def minus_fl_def)
  have r0: "(rn' ! 0) (0, 0) = Fin 700"
    using R'[of 0 "(0, 0)" 700000] by (simp add: v uniform_def)
  have r1: "(rn' ! 1) (0, 0) = Fin 1000"
    using R'[of 1 "(0, 0)" 1000000] by (simp add: v uniform_def minus_fl_def)
  from run o p0 t0 g0 g1 r0 r1 show ?thesis by blast
qed

end
